theory Spec2Isabelle
  imports Complex_Main
begin

section \<open>Python values\<close>

text \<open>
  The repository passes chunks, metadata and search hits around as Python dictionaries
  with string keys. A dictionary is an association list in insertion order with distinct
  keys, read with \<open>map_of\<close>. A number held in a numpy array is a float32 value: a real
  number (\<open>Fin\<close>), an infinity or \<open>NaN\<close>. The two zeros of float32 are one value here;
  they compare equal, and the only divisors of the store are norms, which are never the
  negative zero.
\<close>

datatype npfloat = Fin real | PInf | NInf | NaN

datatype pyval = PNone | PInt int | PStr string | PFloat npfloat

type_synonym pydict = "(string \<times> pyval) list"

datatype vmsg = CountMismatch nat nat | Inhomogeneous | ShapesNotAligned | RangeStepZero

datatype exn = ValueError vmsg | KeyError string | IndexError | TypeError | AxisError | OSError

text \<open>
  What a call did: it raised to its caller, it caught an exception inside (printing a
  message) and returned a value, or it returned normally.
\<close>

datatype 'a outcome = Raised exn | Caught exn 'a | Returned 'a

fun value_of :: "'a outcome \<Rightarrow> 'a option" where
  "value_of (Raised e) = None"
| "value_of (Caught e v) = Some v"
| "value_of (Returned v) = Some v"

section \<open>Strings as Python handles them\<close>

text \<open>
  A Python \<open>str\<close> is a sequence of code points; a \<open>char\<close> here stands for one code
  point below 256. \<open>is_space\<close> is \<open>str.isspace\<close> on that range, which is also what
  \<open>str.strip()\<close>, \<open>str.split()\<close> and the regular expression \<open>\s\<close> use.
\<close>

definition is_space :: "char \<Rightarrow> bool" where
  "is_space c \<longleftrightarrow> c \<in> set [CHR 0x09, CHR 0x0A, CHR 0x0B, CHR 0x0C, CHR 0x0D,
                             CHR 0x1C, CHR 0x1D, CHR 0x1E, CHR 0x1F, CHR 0x20,
                             CHR 0x85, CHR 0xA0]"

definition strip :: "string \<Rightarrow> string" where
  "strip s = rev (dropWhile is_space (rev (dropWhile is_space s)))"

text \<open>\<open>len(text.split())\<close>: the maximal runs of non-whitespace characters.\<close>

fun split_ws :: "string \<Rightarrow> string \<Rightarrow> string list" where
  "split_ws acc [] = (if acc = [] then [] else [rev acc])"
| "split_ws acc (c # cs) =
     (if is_space c then (if acc = [] then split_ws [] cs else rev acc # split_ws [] cs)
      else split_ws (c # acc) cs)"

definition cons_hd :: "char \<Rightarrow> string list \<Rightarrow> string list" where
  "cons_hd c ps = (case ps of [] \<Rightarrow> [[c]] | p # qs \<Rightarrow> (c # p) # qs)"

text \<open>\<open>text.split('\n\n')\<close>: the pieces between non-overlapping blank-line separators,
  scanned from the left; empty pieces are kept.\<close>

fun split_paragraphs :: "string \<Rightarrow> string list" where
  "split_paragraphs [] = [[]]"
| "split_paragraphs [c] = [[c]]"
| "split_paragraphs (c # d # cs) =
     (if c = CHR 0x0A \<and> d = CHR 0x0A then [] # split_paragraphs cs
      else cons_hd c (split_paragraphs (d # cs)))"

text \<open>
  \<open>re.split(r'(?<=[.!?])\s+', text)\<close>: a separator is a maximal run of whitespace that
  directly follows one of \<open>.\<close>, \<open>!\<close>, \<open>?\<close>; the punctuation stays with the piece before.
\<close>

definition is_terminal :: "char \<Rightarrow> bool" where
  "is_terminal c \<longleftrightarrow> c = CHR ''.'' \<or> c = CHR ''!'' \<or> c = CHR ''?''"

function split_sentences :: "string \<Rightarrow> string list" where
  "split_sentences [] = [[]]"
| "split_sentences [c] = [[c]]"
| "split_sentences (c # d # cs) =
     (if is_terminal c \<and> is_space d then [c] # split_sentences (dropWhile is_space cs)
      else cons_hd c (split_sentences (d # cs)))"
  by pat_completeness auto
termination
  by (relation "measure length") (auto intro: le_less_trans [OF length_dropWhile_le])

text \<open>\<open>text[i:j]\<close> for integers \<open>i\<close>, \<open>j\<close>: negative bounds count from the end, and both
  are clamped to the string.\<close>

definition py_slice :: "'a list \<Rightarrow> int \<Rightarrow> int \<Rightarrow> 'a list" where
  "py_slice s i j =
     (let n = int (length s);
          a = (if i < 0 then max 0 (i + n) else min i n);
          b = (if j < 0 then max 0 (j + n) else min j n)
      in take (nat (b - a)) (drop (nat a) s))"

text \<open>\<open>range(i, stop, step)\<close> for a positive step; a negative step from \<open>0\<close> to a
  length gives nothing. A zero step raises, which the caller below checks first.\<close>

function range_up :: "int \<Rightarrow> int \<Rightarrow> int \<Rightarrow> int list" where
  "range_up i stop step = (if 0 < step \<and> i < stop then i # range_up (i + step) stop step else [])"
  by pat_completeness auto
termination
  by (relation "measure (\<lambda>(i, stop, step). nat (stop - i))") auto

declare range_up.simps [simp del]

text \<open>\<open>str(n)\<close> for an integer, as the f-string of the chunk id prints it.\<close>

function show_nat :: "nat \<Rightarrow> string" where
  "show_nat n = (if n < 10 then [char_of (48 + n)] else show_nat (n div 10) @ [char_of (48 + n mod 10)])"
  by pat_completeness auto
termination
  by (relation "measure id") auto

declare show_nat.simps [simp del]

definition show_int :: "int \<Rightarrow> string" where
  "show_int i = (if i < 0 then CHR ''-'' # show_nat (nat (- i)) else show_nat (nat i))"

text \<open>
  \<open>Path(source).stem\<close> on a POSIX path: the last component that is neither empty nor
  \<open>.\<close>, cut before its last dot unless that dot is its first or last character.
\<close>

fun split_char :: "char \<Rightarrow> string \<Rightarrow> string list" where
  "split_char sep [] = [[]]"
| "split_char sep (c # cs) = (if c = sep then [] # split_char sep cs else cons_hd c (split_char sep cs))"

definition path_name :: "string \<Rightarrow> string" where
  "path_name p = (case rev (filter (\<lambda>c. c \<noteq> [] \<and> c \<noteq> ''.'') (split_char CHR ''/'' p)) of
                    [] \<Rightarrow> [] | n # _ \<Rightarrow> n)"

definition path_stem :: "string \<Rightarrow> string" where
  "path_stem p =
     (let name = path_name p;
          after = takeWhile (\<lambda>c. c \<noteq> CHR ''.'') (rev name);
          i = length name - length after - 1
      in if length after < length name \<and> 0 < i \<and> i < length name - 1 then take i name else name)"

section \<open>The chunker (document_processor.py)\<close>

record processor =
  chunk_size :: int
  overlap :: int

definition create_chunk :: "string \<Rightarrow> int \<Rightarrow> string \<Rightarrow> pydict" where
  "create_chunk txt chunk_id source =
     [(''text'', PStr (strip txt)),
      (''chunk_id'', PStr (path_stem source @ ''_chunk_'' @ show_int chunk_id)),
      (''source'', PStr source),
      (''chunk_number'', PInt chunk_id),
      (''char_count'', PInt (int (length txt))),
      (''word_count'', PInt (int (length (split_ws [] txt)))),
      (''char_start'', PInt 0),
      (''char_end'', PInt (int (length txt)))]"

fun force_loop :: "processor \<Rightarrow> string \<Rightarrow> string \<Rightarrow> int list \<Rightarrow> int \<Rightarrow> pydict list" where
  "force_loop self txt source [] chunk_id = []"
| "force_loop self txt source (i # rest) chunk_id =
     (let chunk_text = py_slice txt i (i + chunk_size self)
      in if strip chunk_text \<noteq> []
         then create_chunk chunk_text chunk_id source # force_loop self txt source rest (chunk_id + 1)
         else force_loop self txt source rest chunk_id)"

definition force_split_text :: "processor \<Rightarrow> string \<Rightarrow> string \<Rightarrow> int \<Rightarrow> exn + pydict list" where
  "force_split_text self txt source start_id =
     (if chunk_size self - overlap self = 0 then Inl (ValueError RangeStepZero)
      else Inr (force_loop self txt source
                  (range_up 0 (int (length txt)) (chunk_size self - overlap self)) start_id))"

text \<open>
  The loop of \<open>_split_long_text\<close> over the sentences, with its three variables
  \<open>chunks\<close>, \<open>current_chunk\<close> and \<open>chunk_id\<close>; the last equation is the code after the loop.
\<close>

fun sentence_loop ::
  "processor \<Rightarrow> string \<Rightarrow> string list \<Rightarrow> pydict list \<Rightarrow> string \<Rightarrow> int \<Rightarrow> exn + pydict list" where
  "sentence_loop self source [] cks cur chunk_id =
     Inr (if cur \<noteq> [] then cks @ [create_chunk cur chunk_id source] else cks)"
| "sentence_loop self source (s0 # rest) cks cur chunk_id =
     (let sentence = strip s0 in
      if sentence = [] then sentence_loop self source rest cks cur chunk_id
      else if int (length cur) + int (length sentence) < chunk_size self
      then sentence_loop self source rest cks
             (if cur \<noteq> [] then cur @ '' '' @ sentence else sentence) chunk_id
      else
        (let cks1 = (if cur \<noteq> [] then cks @ [create_chunk cur chunk_id source] else cks);
             id1 = (if cur \<noteq> [] then chunk_id + 1 else chunk_id)
         in if int (length sentence) > chunk_size self
            then (case force_split_text self sentence source id1 of
                    Inl e \<Rightarrow> Inl e
                  | Inr force_chunks \<Rightarrow>
                      sentence_loop self source rest (cks1 @ force_chunks) []
                        (id1 + int (length force_chunks)))
            else sentence_loop self source rest cks1 sentence id1))"

definition split_long_text :: "processor \<Rightarrow> string \<Rightarrow> string \<Rightarrow> int \<Rightarrow> exn + pydict list" where
  "split_long_text self txt source start_id =
     sentence_loop self source (split_sentences txt) [] [] start_id"

fun paragraph_loop ::
  "processor \<Rightarrow> string \<Rightarrow> string list \<Rightarrow> pydict list \<Rightarrow> string \<Rightarrow> int \<Rightarrow> exn + pydict list" where
  "paragraph_loop self source [] cks cur chunk_id =
     Inr (if cur \<noteq> [] then cks @ [create_chunk cur chunk_id source] else cks)"
| "paragraph_loop self source (p0 # rest) cks cur chunk_id =
     (let para = strip p0 in
      if para = [] then paragraph_loop self source rest cks cur chunk_id
      else if int (length cur) + int (length para) < chunk_size self
      then paragraph_loop self source rest cks
             (if cur \<noteq> [] then cur @ [CHR 0x0A, CHR 0x0A] @ para else para) chunk_id
      else
        (let cks1 = (if cur \<noteq> [] then cks @ [create_chunk cur chunk_id source] else cks);
             id1 = (if cur \<noteq> [] then chunk_id + 1 else chunk_id)
         in if int (length para) > chunk_size self
            then (case split_long_text self para source id1 of
                    Inl e \<Rightarrow> Inl e
                  | Inr sub_chunks \<Rightarrow>
                      paragraph_loop self source rest (cks1 @ sub_chunks) []
                        (id1 + int (length sub_chunks)))
            else paragraph_loop self source rest cks1 para id1))"

definition smart_chunk_text :: "processor \<Rightarrow> string \<Rightarrow> string \<Rightarrow> exn + pydict list" where
  "smart_chunk_text self txt source =
     paragraph_loop self source (split_paragraphs txt) [] [] 0"

section \<open>Float arithmetic of the similarity computation\<close>

text \<open>
  numpy computes in float32: every operation gives the float32 value nearest to the exact
  result, ties to the even significand (24 bits, exponents from -126 to 127, subnormal
  values below), and an infinity when the rounded value is out of range. So a small
  product rounds to 0 (underflow) and a large one to an infinity (overflow).
\<close>

definition round_half_even :: "real \<Rightarrow> int" where
  "round_half_even x =
     (let f = \<lfloor>x\<rfloor>; d = x - of_int f
      in if d < 1 / 2 then f else if 1 / 2 < d then f + 1 else if even f then f else f + 1)"

definition round32 :: "real \<Rightarrow> npfloat" where
  "round32 x =
     (if x = 0 then Fin 0
      else
        (let e = max \<lfloor>log 2 \<bar>x\<bar>\<rfloor> (- 126);
             q = 2 powr (of_int e - 23);
             y = of_int (round_half_even (x / q)) * q
         in if 2 ^ 128 \<le> y then PInf else if y \<le> - (2 ^ 128) then NInf else Fin y))"

text \<open>
  The operations of IEEE 754: \<open>NaN\<close> is propagated; \<open>inf - inf\<close>, \<open>0 * inf\<close>, \<open>0/0\<close>,
  \<open>inf/inf\<close> and the square root of a negative number are \<open>NaN\<close>; \<open>x/0\<close> for a non-zero
  \<open>x\<close> is the infinity of the sign of \<open>x\<close>. numpy warns on these and raises nothing.
\<close>

fun negative :: "npfloat \<Rightarrow> bool" where
  "negative (Fin a) \<longleftrightarrow> a < 0"
| "negative NInf \<longleftrightarrow> True"
| "negative _ \<longleftrightarrow> False"

fun fadd :: "npfloat \<Rightarrow> npfloat \<Rightarrow> npfloat" where
  "fadd NaN _ = NaN"
| "fadd _ NaN = NaN"
| "fadd (Fin a) (Fin b) = round32 (a + b)"
| "fadd PInf NInf = NaN"
| "fadd NInf PInf = NaN"
| "fadd PInf _ = PInf"
| "fadd _ PInf = PInf"
| "fadd NInf _ = NInf"
| "fadd _ NInf = NInf"

fun fmul :: "npfloat \<Rightarrow> npfloat \<Rightarrow> npfloat" where
  "fmul NaN _ = NaN"
| "fmul _ NaN = NaN"
| "fmul (Fin a) (Fin b) = round32 (a * b)"
| "fmul a b = (if a = Fin 0 \<or> b = Fin 0 then NaN
               else if negative a \<noteq> negative b then NInf else PInf)"

fun fdiv :: "npfloat \<Rightarrow> npfloat \<Rightarrow> npfloat" where
  "fdiv NaN _ = NaN"
| "fdiv _ NaN = NaN"
| "fdiv (Fin a) (Fin b) =
     (if b \<noteq> 0 then round32 (a / b)
      else if a = 0 then NaN else if a < 0 then NInf else PInf)"
| "fdiv (Fin a) _ = Fin 0"
| "fdiv a (Fin b) = (if negative a \<noteq> (b < 0) then NInf else PInf)"
| "fdiv _ _ = NaN"

fun fsqrt :: "npfloat \<Rightarrow> npfloat" where
  "fsqrt (Fin a) = (if a < 0 then NaN else round32 (sqrt a))"
| "fsqrt PInf = PInf"
| "fsqrt _ = NaN"

text \<open>Python's \<open>a >= b\<close> on floats: false as soon as one side is \<open>NaN\<close>.\<close>

fun fge :: "npfloat \<Rightarrow> npfloat \<Rightarrow> bool" where
  "fge NaN _ \<longleftrightarrow> False"
| "fge _ NaN \<longleftrightarrow> False"
| "fge PInf _ \<longleftrightarrow> True"
| "fge _ NInf \<longleftrightarrow> True"
| "fge (Fin a) (Fin b) \<longleftrightarrow> b \<le> a"
| "fge _ _ \<longleftrightarrow> False"

text \<open>The order numpy sorts floats by, \<open>a < b || (b != b && a == a)\<close>: the order of the
  numbers and the infinities, with every \<open>NaN\<close> after all of them.\<close>

fun flt :: "npfloat \<Rightarrow> npfloat \<Rightarrow> bool" where
  "flt (Fin a) (Fin b) \<longleftrightarrow> a < b"
| "flt (Fin a) PInf \<longleftrightarrow> True"
| "flt NInf (Fin b) \<longleftrightarrow> True"
| "flt NInf PInf \<longleftrightarrow> True"
| "flt _ _ \<longleftrightarrow> False"

definition np_lt :: "npfloat \<Rightarrow> npfloat \<Rightarrow> bool" where
  "np_lt a b \<longleftrightarrow> flt a b \<or> (b = NaN \<and> a \<noteq> NaN)"

type_synonym vec = "npfloat list"

text \<open>
  A sum of float32 values, added from the left. The order in which numpy and its BLAS add
  the terms of a norm or a dot product is not in the source and can differ; it changes
  the last bits of a result at most, and no statement below rests on it.
\<close>

definition fsum :: "vec \<Rightarrow> npfloat" where
  "fsum xs = foldl fadd (Fin 0) xs"

text \<open>\<open>np.linalg.norm(v)\<close> of one vector, and of each row with \<open>axis=1\<close>.\<close>

definition fnorm :: "vec \<Rightarrow> npfloat" where
  "fnorm v = fsqrt (fsum (map (\<lambda>x. fmul x x) v))"

text \<open>\<open>v / np.linalg.norm(v)\<close>, component by component.\<close>

definition unit_vector :: "vec \<Rightarrow> vec" where
  "unit_vector v = map (\<lambda>x. fdiv x (fnorm v)) v"

definition fdot :: "vec \<Rightarrow> vec \<Rightarrow> npfloat" where
  "fdot a b = fsum (map2 fmul a b)"

text \<open>
  \<open>np.array(rows, dtype=np.float32)\<close> on a list of vectors: a two-dimensional array when
  all rows have one length, a \<open>ValueError\<close> otherwise.
\<close>

definition uniform :: "vec list \<Rightarrow> bool" where
  "uniform rows \<longleftrightarrow> (\<forall>r \<in> set rows. length r = length (hd rows))"

definition np_array2 :: "vec list \<Rightarrow> exn + vec list" where
  "np_array2 rows = (if uniform rows then Inr rows else Inl (ValueError Inhomogeneous))"

text \<open>
  \<open>np.argsort\<close> gives the indices in ascending order of their values. The order of
  equal values is the choice of numpy's sorting routine, which the source does not fix
  and numpy does not promise; the insertion sort below, which moves an index left only
  past strictly larger values, keeps equal values in index order. Only a statement about
  an input with equal values depends on that choice.
\<close>

fun ins_idx :: "npfloat list \<Rightarrow> nat \<Rightarrow> nat list \<Rightarrow> nat list" where
  "ins_idx v i [] = [i]"
| "ins_idx v i (j # js) = (if np_lt (v ! i) (v ! j) then i # j # js else j # ins_idx v i js)"

definition argsort :: "npfloat list \<Rightarrow> nat list" where
  "argsort v = foldr (ins_idx v) (rev [0..<length v]) []"

section \<open>The vector store (vector_db.py)\<close>

text \<open>
  The file at \<open>storage_path\<close> is absent, holds a pickled snapshot of the three lists, or
  holds something that does not unpickle.
\<close>

datatype snapshot_file = Absent | Snapshot "pydict list" "vec list" "pydict list" | Corrupt

record vdb =
  chunks :: "pydict list"
  embeddings :: "vec list"
  metadata :: "pydict list"
  disk :: snapshot_file

text \<open>What happens to the write in \<open>save_to_disk\<close>; the method catches every failure.\<close>

datatype write_fate = Written | NotOpened | Truncated

definition save_to_disk :: "write_fate \<Rightarrow> vdb \<Rightarrow> vdb" where
  "save_to_disk fate s =
     (case fate of
        Written \<Rightarrow> s\<lparr>disk := Snapshot (chunks s) (embeddings s) (metadata s)\<rparr>
      | NotOpened \<Rightarrow> s
      | Truncated \<Rightarrow> s\<lparr>disk := Corrupt\<rparr>)"

definition load_from_disk :: "vdb \<Rightarrow> vdb" where
  "load_from_disk s =
     (case disk s of
        Absent \<Rightarrow> s
      | Snapshot c e m \<Rightarrow> s\<lparr>chunks := c, embeddings := e, metadata := m\<rparr>
      | Corrupt \<Rightarrow> s\<lparr>chunks := [], embeddings := [], metadata := []\<rparr>)"

definition init :: "snapshot_file \<Rightarrow> vdb" where
  "init f = load_from_disk \<lparr>chunks = [], embeddings = [], metadata = [], disk = f\<rparr>"

text \<open>One element of the metadata comprehension of \<open>insert_documents\<close>.\<close>

definition metadata_of :: "pydict \<Rightarrow> exn + pydict" where
  "metadata_of chunk =
     (case map_of chunk ''chunk_id'' of
        None \<Rightarrow> Inl (KeyError ''chunk_id'')
      | Some cid \<Rightarrow>
          (case map_of chunk ''source'' of
             None \<Rightarrow> Inl (KeyError ''source'')
           | Some src \<Rightarrow>
               Inr [(''chunk_id'', cid), (''source'', src),
                    (''char_start'', case map_of chunk ''char_start'' of None \<Rightarrow> PInt 0 | Some v \<Rightarrow> v),
                    (''char_end'', case map_of chunk ''char_end'' of None \<Rightarrow> PInt 0 | Some v \<Rightarrow> v)]))"

fun all_metadata :: "pydict list \<Rightarrow> exn + pydict list" where
  "all_metadata [] = Inr []"
| "all_metadata (c # cs) =
     (case metadata_of c of
        Inl e \<Rightarrow> Inl e
      | Inr m \<Rightarrow> (case all_metadata cs of Inl e \<Rightarrow> Inl e | Inr ms \<Rightarrow> Inr (m # ms)))"

text \<open>
  \<open>insert_documents\<close>: the count check raises to the caller before anything is touched;
  everything after it runs inside \<open>try\<close>, whose handler prints and returns. The method has
  no \<open>return\<close> statement, so the caller gets \<open>None\<close>.
\<close>

definition insert_documents ::
  "pydict list \<Rightarrow> vec list \<Rightarrow> write_fate \<Rightarrow> vdb \<Rightarrow> pyval outcome \<times> vdb" where
  "insert_documents cks embs fate s =
     (if length cks \<noteq> length embs
      then (Raised (ValueError (CountMismatch (length cks) (length embs))), s)
      else
        (case np_array2 embs of
           Inl e \<Rightarrow> (Caught e PNone, s)
         | Inr embeddings_array \<Rightarrow>
             (let s1 = s\<lparr>chunks := chunks s @ cks\<rparr>;
                  s2 = s1\<lparr>embeddings := embeddings s1 @ embeddings_array\<rparr>
              in case all_metadata cks of
                   Inl e \<Rightarrow> (Caught e PNone, s2)
                 | Inr ms \<Rightarrow>
                     (Returned PNone, save_to_disk fate (s2\<lparr>metadata := metadata s2 @ ms\<rparr>)))))"

text \<open>
  Lines 71 to 80 of \<open>search_similar\<close>: the similarity of every stored vector to the
  query. An empty list of vectors makes a one-dimensional array, on which the norm along
  axis 1 raises; \<open>search_similar\<close> returns before that. \<open>np.dot\<close> raises when the rows and
  the query differ in length.
\<close>

definition similarities :: "vdb \<Rightarrow> vec \<Rightarrow> exn + npfloat list" where
  "similarities s query_embedding =
     (case np_array2 (embeddings s) of
        Inl e \<Rightarrow> Inl e
      | Inr stored_embeddings \<Rightarrow>
          (if stored_embeddings = [] then Inl AxisError
           else
             (let query_norm = unit_vector query_embedding;
                  stored_norms = map unit_vector stored_embeddings
              in if length (hd stored_embeddings) \<noteq> length query_embedding
                 then Inl (ValueError ShapesNotAligned)
                 else Inr (map (\<lambda>row. fdot row query_norm) stored_norms))))"

text \<open>\<open>np.argsort(similarities)[::-1][:top_k]\<close>.\<close>

definition top_indices :: "npfloat list \<Rightarrow> int \<Rightarrow> nat list" where
  "top_indices sims top_k = py_slice (rev (argsort sims)) 0 top_k"

record hit =
  res_text :: pyval
  res_source :: pyval
  res_score :: npfloat
  res_chunk_id :: pyval
  res_metadata :: pydict

text \<open>The dictionary literal of the result loop, its entries evaluated in order.\<close>

definition make_result :: "vdb \<Rightarrow> nat \<Rightarrow> npfloat \<Rightarrow> exn + hit" where
  "make_result s idx similarity_score =
     (if length (chunks s) \<le> idx then Inl IndexError
      else case map_of (chunks s ! idx) ''text'' of
        None \<Rightarrow> Inl (KeyError ''text'')
      | Some t \<Rightarrow>
          (case map_of (chunks s ! idx) ''source'' of
             None \<Rightarrow> Inl (KeyError ''source'')
           | Some src \<Rightarrow>
               (case map_of (chunks s ! idx) ''chunk_id'' of
                  None \<Rightarrow> Inl (KeyError ''chunk_id'')
                | Some cid \<Rightarrow>
                    (if length (metadata s) \<le> idx then Inl IndexError
                     else Inr \<lparr>res_text = t, res_source = src, res_score = similarity_score,
                               res_chunk_id = cid, res_metadata = metadata s ! idx\<rparr>))))"

fun build_results :: "vdb \<Rightarrow> npfloat list \<Rightarrow> npfloat \<Rightarrow> nat list \<Rightarrow> exn + hit list" where
  "build_results s sims threshold [] = Inr []"
| "build_results s sims threshold (idx # rest) =
     (let similarity_score = sims ! idx in
      if fge similarity_score threshold
      then (case make_result s idx similarity_score of
              Inl e \<Rightarrow> Inl e
            | Inr r \<Rightarrow>
                (case build_results s sims threshold rest of
                   Inl e \<Rightarrow> Inl e
                 | Inr rs \<Rightarrow> Inr (r # rs)))
      else build_results s sims threshold rest)"

text \<open>The summary printed after the loop builds \<open>Path(result['source'])\<close> for the first
  three results, which raises \<open>TypeError\<close> when the source is not a string.\<close>

fun is_str :: "pyval \<Rightarrow> bool" where
  "is_str (PStr _) = True"
| "is_str _ = False"

definition search_similar :: "vec \<Rightarrow> int \<Rightarrow> npfloat \<Rightarrow> vdb \<Rightarrow> hit list outcome \<times> vdb" where
  "search_similar query_embedding top_k similarity_threshold s =
     (if embeddings s = [] then (Returned [], s)
      else case similarities s query_embedding of
        Inl e \<Rightarrow> (Caught e [], s)
      | Inr sims \<Rightarrow>
          (case build_results s sims similarity_threshold (top_indices sims top_k) of
             Inl e \<Rightarrow> (Caught e [], s)
           | Inr results \<Rightarrow>
               (if list_all (\<lambda>r. is_str (res_source r)) (take 3 results)
                then (Returned results, s)
                else (Caught TypeError [], s))))"

record status =
  total_chunks :: nat
  total_embeddings :: nat
  sources :: "pyval list"

fun all_sources :: "pydict list \<Rightarrow> exn + pyval list" where
  "all_sources [] = Inr []"
| "all_sources (c # cs) =
     (case map_of c ''source'' of
        None \<Rightarrow> Inl (KeyError ''source'')
      | Some src \<Rightarrow> (case all_sources cs of Inl e \<Rightarrow> Inl e | Inr ss \<Rightarrow> Inr (src # ss)))"

text \<open>\<open>get_status\<close>; \<open>list(set(...))\<close> keeps one copy of each source, in an order Python
  does not fix (here: the order of first appearance).\<close>

definition get_status :: "vdb \<Rightarrow> status outcome \<times> vdb" where
  "get_status s =
     (case all_sources (chunks s) of
        Inl e \<Rightarrow> (Raised e, s)
      | Inr ss \<Rightarrow>
          (Returned \<lparr>total_chunks = length (chunks s), total_embeddings = length (embeddings s),
                     sources = rev (remdups (rev ss))\<rparr>, s))"

text \<open>\<open>clear_database\<close>: the lists are emptied first; deleting the file can still raise.\<close>

definition clear_database :: "bool \<Rightarrow> vdb \<Rightarrow> pyval outcome \<times> vdb" where
  "clear_database unlink_ok s =
     (let s1 = s\<lparr>chunks := [], embeddings := [], metadata := []\<rparr>
      in if disk s1 \<noteq> Absent
         then (if unlink_ok then (Returned PNone, s1\<lparr>disk := Absent\<rparr>) else (Raised OSError, s1))
         else (Returned PNone, s1))"

section \<open>Sequences of store operations\<close>

datatype store_op =
    Insert "pydict list" "vec list" write_fate
  | Clear bool
  | Search vec int npfloat
  | Status

fun succeeded :: "'a outcome \<Rightarrow> bool" where
  "succeeded (Returned v) = True"
| "succeeded _ = False"

text \<open>
  \<open>run\<close> performs the operations in order and gives \<open>None\<close> as soon as an insert or a
  clear is not successful, that is, raises or catches an exception.
\<close>

fun run :: "store_op list \<Rightarrow> vdb \<Rightarrow> vdb option" where
  "run [] s = Some s"
| "run (Insert cks embs fate # ops) s =
     (case insert_documents cks embs fate s of
        (out, s') \<Rightarrow> if succeeded out then run ops s' else None)"
| "run (Clear ok # ops) s =
     (case clear_database ok s of
        (out, s') \<Rightarrow> if succeeded out then run ops s' else None)"
| "run (Search q k t # ops) s = run ops (snd (search_similar q k t s))"
| "run (Status # ops) s = run ops (snd (get_status s))"

section \<open>Notions used in the statements\<close>

text \<open>The \<open>chunk_number\<close> fields of a list of chunks, in order.\<close>

definition chunk_numbers :: "pydict list \<Rightarrow> pyval option list" where
  "chunk_numbers cks = map (\<lambda>c. map_of c ''chunk_number'') cks"

definition numbered :: "int \<Rightarrow> pydict list \<Rightarrow> bool" where
  "numbered start cks \<longleftrightarrow>
     chunk_numbers cks = map (\<lambda>k. Some (PInt (start + int k))) [0..<length cks]"

text \<open>The \<open>char_count\<close> field of a chunk is an integer of at most \<open>b\<close>.\<close>

definition char_count_le :: "int \<Rightarrow> pydict \<Rightarrow> bool" where
  "char_count_le b c = (case map_of c ''char_count'' of Some (PInt n) \<Rightarrow> n \<le> b | _ \<Rightarrow> False)"

text \<open>
  A store on which a search with the query \<open>q\<close> meets no exception: there are vectors,
  all of the length of the query, every vector has its chunk and its metadata, and every
  chunk has a text, a chunk id and a source that is a string.
\<close>

definition searchable :: "vdb \<Rightarrow> vec \<Rightarrow> bool" where
  "searchable s q \<longleftrightarrow>
     embeddings s \<noteq> [] \<and> list_all (\<lambda>v. length v = length q) (embeddings s) \<and>
     length (embeddings s) \<le> length (chunks s) \<and>
     length (embeddings s) \<le> length (metadata s) \<and>
     list_all (\<lambda>c. map_of c ''text'' \<noteq> None \<and> map_of c ''chunk_id'' \<noteq> None \<and>
                    (case map_of c ''source'' of Some src \<Rightarrow> is_str src | None \<Rightarrow> False))
       (chunks s)"

text \<open>The three lists of the store describe the same entries position by position.\<close>

definition parallel :: "vdb \<Rightarrow> bool" where
  "parallel s \<longleftrightarrow> length (chunks s) = length (embeddings s) \<and>
                 length (embeddings s) = length (metadata s)"

subsection \<open>Concrete inputs\<close>

definition demo_processor :: processor where
  "demo_processor = \<lparr>chunk_size = 12, overlap = 3\<rparr>"

definition demo_text :: string where
  "demo_text = ''Intro\<newline>\<newline>One. Two two two two.''"

definition demo_chunk :: "string \<Rightarrow> pydict" where
  "demo_chunk name =
     [(''text'', PStr name), (''chunk_id'', PStr (name @ ''_id'')), (''source'', PStr ''notes.txt'')]"

text \<open>A store filled by one call of \<open>insert_documents\<close> on a fresh database without a file.\<close>

definition demo_store :: "(string \<times> vec) list \<Rightarrow> vdb" where
  "demo_store entries =
     snd (insert_documents (map (\<lambda>e. demo_chunk (fst e)) entries) (map snd entries) NotOpened
            (init Absent))"

definition same_vectors :: "(string \<times> vec) list" where
  "same_vectors =
     [(''first'', [Fin 1, Fin 0]), (''second'', [Fin 1, Fin 0]), (''third'', [Fin 1, Fin 0])]"

definition ranked_vectors :: "(string \<times> vec) list" where
  "ranked_vectors =
     [(''across'', [Fin 0, Fin 1]), (''along'', [Fin 1, Fin 0]), (''against'', [Fin (- 1), Fin 0])]"

definition zero_first :: "(string \<times> vec) list" where
  "zero_first = [(''zero'', [Fin 0, Fin 0]), (''match'', [Fin 1, Fin 0])]"

definition demo_ops :: "store_op list" where
  "demo_ops =
     [Insert [demo_chunk ''a'', demo_chunk ''b''] [[Fin 1, Fin 0], [Fin 0, Fin 1]] Written,
      Search [Fin 1, Fin 0] 1 (Fin 0.5),
      Status,
      Clear True,
      Insert [demo_chunk ''c''] [[Fin 1]] NotOpened]"

section \<open>Chunk numbering\<close>

lemma chunk_number_create [simp]:
  "map_of (create_chunk txt i source) ''chunk_number'' = Some (PInt i)"
  by (simp add: create_chunk_def)

lemma numbered_Nil [simp]: "numbered start []"
  by (simp add: numbered_def chunk_numbers_def)

lemma numbered_Cons:
  "numbered start (c # cks) \<longleftrightarrow>
     map_of c ''chunk_number'' = Some (PInt start) \<and> numbered (start + 1) cks"
proof -
  have "map (\<lambda>k. Some (PInt (start + int k))) [0..<Suc (length cks)]
        = Some (PInt start) # map (\<lambda>k. Some (PInt (start + 1 + int k))) [0..<length cks]"
    by (simp add: upt_conv_Cons map_Suc_upt [symmetric] add.assoc del: upt_Suc)
  then show ?thesis
    by (simp add: numbered_def chunk_numbers_def)
qed

lemma numbered_append:
  "numbered start (xs @ ys) \<longleftrightarrow> numbered start xs \<and> numbered (start + int (length xs)) ys"
proof (induction xs arbitrary: start)
  case Nil
  show ?case by simp
next
  case (Cons x xs)
  have "start + 1 + int (length xs) = start + int (length (x # xs))" by simp
  with Cons [of "start + 1"] show ?case
    by (simp only: append_Cons numbered_Cons) auto
qed

lemma numbered_force_loop: "numbered i (force_loop self txt source idxs i)"
  by (induction idxs arbitrary: i) (simp_all add: Let_def numbered_Cons)

lemma numbered_force_split:
  "force_split_text self txt source i = Inr cks \<Longrightarrow> numbered i cks"
  by (auto simp: force_split_text_def numbered_force_loop split: if_splits)

lemma numbered_snoc_create:
  "numbered start cks \<Longrightarrow> i = start + int (length cks) \<Longrightarrow>
   numbered start (cks @ [create_chunk cur i source])"
  by (simp add: numbered_append numbered_Cons)

lemma numbered_sentence_loop:
  "numbered start cks \<Longrightarrow> i = start + int (length cks) \<Longrightarrow>
   sentence_loop self source ss cks cur i = Inr res \<Longrightarrow> numbered start res"
proof (induction ss arbitrary: cks cur i)
  case Nil
  then show ?case by (auto simp: numbered_snoc_create split: if_splits)
next
  case (Cons s0 ss)
  let ?s = "strip s0"
  let ?cks1 = "if cur \<noteq> [] then cks @ [create_chunk cur i source] else cks"
  let ?id1 = "if cur \<noteq> [] then i + 1 else i"
  have n1: "numbered start ?cks1" and i1: "?id1 = start + int (length ?cks1)"
    using Cons.prems(1,2) by (auto simp: numbered_snoc_create)
  show ?case
  proof (cases "?s = []")
    case True
    with Cons show ?thesis by simp
  next
    case ne: False
    show ?thesis
    proof (cases "int (length cur) + int (length ?s) < chunk_size self")
      case True
      with ne Cons.prems(3) have
        "sentence_loop self source ss cks (if cur \<noteq> [] then cur @ '' '' @ ?s else ?s) i = Inr res"
        by (simp add: Let_def)
      from Cons.IH [OF Cons.prems(1,2) this] show ?thesis .
    next
      case nofit: False
      show ?thesis
      proof (cases "int (length ?s) > chunk_size self")
        case False
        with ne nofit Cons.prems(3) have "sentence_loop self source ss ?cks1 ?s ?id1 = Inr res"
          by (simp add: Let_def)
        from Cons.IH [OF n1 i1 this] show ?thesis .
      next
        case True
        with ne nofit Cons.prems(3) obtain fc where
          fc: "force_split_text self ?s source ?id1 = Inr fc" and
          rest: "sentence_loop self source ss (?cks1 @ fc) [] (?id1 + int (length fc)) = Inr res"
          by (simp add: Let_def split: sum.splits)
        have "numbered start (?cks1 @ fc)"
          using n1 i1 numbered_force_split [OF fc] by (simp add: numbered_append)
        moreover have "?id1 + int (length fc) = start + int (length (?cks1 @ fc))"
          using i1 by simp
        ultimately show ?thesis using Cons.IH rest by blast
      qed
    qed
  qed
qed

lemma numbered_split_long:
  "split_long_text self txt source i = Inr cks \<Longrightarrow> numbered i cks"
  unfolding split_long_text_def
  using numbered_sentence_loop [of i "[]" i] by simp

lemma numbered_paragraph_loop:
  "numbered start cks \<Longrightarrow> i = start + int (length cks) \<Longrightarrow>
   paragraph_loop self source ps cks cur i = Inr res \<Longrightarrow> numbered start res"
proof (induction ps arbitrary: cks cur i)
  case Nil
  then show ?case by (auto simp: numbered_snoc_create split: if_splits)
next
  case (Cons p0 ps)
  let ?p = "strip p0"
  let ?cks1 = "if cur \<noteq> [] then cks @ [create_chunk cur i source] else cks"
  let ?id1 = "if cur \<noteq> [] then i + 1 else i"
  have n1: "numbered start ?cks1" and i1: "?id1 = start + int (length ?cks1)"
    using Cons.prems(1,2) by (auto simp: numbered_snoc_create)
  show ?case
  proof (cases "?p = []")
    case True
    with Cons show ?thesis by simp
  next
    case ne: False
    show ?thesis
    proof (cases "int (length cur) + int (length ?p) < chunk_size self")
      case True
      with ne Cons.prems(3) have
        "paragraph_loop self source ps cks
           (if cur \<noteq> [] then cur @ [CHR 0x0A, CHR 0x0A] @ ?p else ?p) i = Inr res"
        by (simp add: Let_def)
      from Cons.IH [OF Cons.prems(1,2) this] show ?thesis .
    next
      case nofit: False
      show ?thesis
      proof (cases "int (length ?p) > chunk_size self")
        case False
        with ne nofit Cons.prems(3) have "paragraph_loop self source ps ?cks1 ?p ?id1 = Inr res"
          by (simp add: Let_def)
        from Cons.IH [OF n1 i1 this] show ?thesis .
      next
        case True
        with ne nofit Cons.prems(3) obtain sc where
          sc: "split_long_text self ?p source ?id1 = Inr sc" and
          rest: "paragraph_loop self source ps (?cks1 @ sc) [] (?id1 + int (length sc)) = Inr res"
          by (simp add: Let_def split: sum.splits)
        have "numbered start (?cks1 @ sc)"
          using n1 i1 numbered_split_long [OF sc] by (simp add: numbered_append)
        moreover have "?id1 + int (length sc) = start + int (length (?cks1 @ sc))"
          using i1 by simp
        ultimately show ?thesis using Cons.IH rest by blast
      qed
    qed
  qed
qed

lemma sentence_loop_returns:
  "chunk_size self \<noteq> overlap self \<Longrightarrow> \<exists>res. sentence_loop self source ss cks cur i = Inr res"
  by (induction ss arbitrary: cks cur i) (simp_all add: Let_def force_split_text_def)

lemma paragraph_loop_returns:
  assumes "chunk_size self \<noteq> overlap self"
  shows "\<exists>res. paragraph_loop self source ps cks cur i = Inr res"
proof (induction ps arbitrary: cks cur i)
  case Nil
  show ?case by simp
next
  case (Cons p0 ps)
  obtain sc where "split_long_text self (strip p0) source (if cur \<noteq> [] then i + 1 else i) = Inr sc"
    using sentence_loop_returns [OF assms] unfolding split_long_text_def by blast
  with Cons show ?case by (simp add: Let_def)
qed

section \<open>The size of a chunk\<close>

text \<open>
  For a positive \<open>chunk_size\<close>, a window and a chunk of the sentence level have at most
  \<open>chunk_size\<close> characters, and a chunk of the paragraph level at most one more: the
  separator of two characters is added after a test that leaves room for one. Stripping
  only shortens, so the stored text is never longer than \<open>char_count\<close>.
\<close>

lemma char_count_le_create [simp]:
  "char_count_le b (create_chunk txt i source) \<longleftrightarrow> int (length txt) \<le> b"
  by (simp add: char_count_le_def create_chunk_def)

lemma char_count_le_mono: "char_count_le a c \<Longrightarrow> a \<le> b \<Longrightarrow> char_count_le b c"
  by (auto simp: char_count_le_def split: option.splits pyval.splits)

lemma length_strip_le: "length (strip s) \<le> length s"
proof -
  have "length (strip s) \<le> length (dropWhile is_space s)"
    unfolding strip_def using length_dropWhile_le [of is_space "rev (dropWhile is_space s)"] by simp
  also have "\<dots> \<le> length s" by (rule length_dropWhile_le)
  finally show ?thesis .
qed

lemma length_window: "0 \<le> i \<Longrightarrow> 0 < n \<Longrightarrow> int (length (py_slice txt i (i + n))) \<le> n"
  by (auto simp: py_slice_def Let_def min_def)

lemma range_up_nonneg: "0 \<le> i \<Longrightarrow> k \<in> set (range_up i stop step) \<Longrightarrow> 0 \<le> k"
proof (induction i stop step rule: range_up.induct)
  case (1 i stop step)
  from "1.prems"(2) have "0 < step \<and> i < stop" and "k = i \<or> k \<in> set (range_up (i + step) stop step)"
    by (subst (asm) range_up.simps, simp split: if_splits)+
  with 1 show ?case by auto
qed

lemma force_loop_bound:
  "0 < chunk_size self \<Longrightarrow> \<forall>i \<in> set idxs. 0 \<le> i \<Longrightarrow>
   \<forall>c \<in> set (force_loop self txt source idxs cid). char_count_le (chunk_size self) c"
  by (induction idxs arbitrary: cid) (auto simp: Let_def length_window)

lemma force_split_bound:
  "0 < chunk_size self \<Longrightarrow> force_split_text self txt source cid = Inr cks \<Longrightarrow>
   \<forall>c \<in> set cks. char_count_le (chunk_size self) c"
  using force_loop_bound [of self "range_up 0 (int (length txt)) (chunk_size self - overlap self)"]
    range_up_nonneg [of 0]
  by (auto simp: force_split_text_def split: if_splits)

lemma sentence_loop_bound:
  "0 < chunk_size self \<Longrightarrow> \<forall>c \<in> set cks. char_count_le (chunk_size self) c \<Longrightarrow>
   int (length cur) \<le> chunk_size self \<Longrightarrow>
   sentence_loop self source ss cks cur cid = Inr res \<Longrightarrow>
   \<forall>c \<in> set res. char_count_le (chunk_size self) c"
proof (induction ss arbitrary: cks cur cid)
  case Nil
  then show ?case by (auto split: if_splits)
next
  case (Cons s0 ss)
  let ?s = "strip s0"
  let ?cks1 = "if cur \<noteq> [] then cks @ [create_chunk cur cid source] else cks"
  let ?id1 = "if cur \<noteq> [] then cid + 1 else cid"
  have b1: "\<forall>c \<in> set ?cks1. char_count_le (chunk_size self) c"
    using Cons.prems(2,3) by auto
  show ?case
  proof (cases "?s = []")
    case True
    with Cons show ?thesis by simp
  next
    case ne: False
    show ?thesis
    proof (cases "int (length cur) + int (length ?s) < chunk_size self")
      case True
      let ?cur' = "if cur \<noteq> [] then cur @ '' '' @ ?s else ?s"
      from ne True Cons.prems(4) have r: "sentence_loop self source ss cks ?cur' cid = Inr res"
        by (simp add: Let_def)
      from True have "int (length ?cur') \<le> chunk_size self" by auto
      from Cons.IH [OF Cons.prems(1,2) this r] show ?thesis .
    next
      case nofit: False
      show ?thesis
      proof (cases "int (length ?s) > chunk_size self")
        case False
        with ne nofit Cons.prems(4) have r: "sentence_loop self source ss ?cks1 ?s ?id1 = Inr res"
          by (simp add: Let_def)
        from False have "int (length ?s) \<le> chunk_size self" by simp
        from Cons.IH [OF Cons.prems(1) b1 this r] show ?thesis .
      next
        case True
        with ne nofit Cons.prems(4) obtain fc where
          fc: "force_split_text self ?s source ?id1 = Inr fc" and
          r: "sentence_loop self source ss (?cks1 @ fc) [] (?id1 + int (length fc)) = Inr res"
          by (simp add: Let_def split: sum.splits)
        have "\<forall>c \<in> set (?cks1 @ fc). char_count_le (chunk_size self) c"
          using b1 force_split_bound [OF Cons.prems(1) fc] by auto
        moreover have "int (length ([] :: string)) \<le> chunk_size self"
          using Cons.prems(1) by simp
        ultimately show ?thesis using Cons.IH [OF Cons.prems(1) _ _ r] by blast
      qed
    qed
  qed
qed

lemma split_long_bound:
  "0 < chunk_size self \<Longrightarrow> split_long_text self txt source cid = Inr cks \<Longrightarrow>
   \<forall>c \<in> set cks. char_count_le (chunk_size self) c"
  unfolding split_long_text_def using sentence_loop_bound [of self "[]" "[]"] by simp

lemma paragraph_loop_bound:
  "0 < chunk_size self \<Longrightarrow> \<forall>c \<in> set cks. char_count_le (chunk_size self + 1) c \<Longrightarrow>
   int (length cur) \<le> chunk_size self + 1 \<Longrightarrow>
   paragraph_loop self source ps cks cur cid = Inr res \<Longrightarrow>
   \<forall>c \<in> set res. char_count_le (chunk_size self + 1) c"
proof (induction ps arbitrary: cks cur cid)
  case Nil
  then show ?case by (auto split: if_splits)
next
  case (Cons p0 ps)
  let ?p = "strip p0"
  let ?cks1 = "if cur \<noteq> [] then cks @ [create_chunk cur cid source] else cks"
  let ?id1 = "if cur \<noteq> [] then cid + 1 else cid"
  have b1: "\<forall>c \<in> set ?cks1. char_count_le (chunk_size self + 1) c"
    using Cons.prems(2,3) by auto
  show ?case
  proof (cases "?p = []")
    case True
    with Cons show ?thesis by simp
  next
    case ne: False
    show ?thesis
    proof (cases "int (length cur) + int (length ?p) < chunk_size self")
      case True
      let ?cur' = "if cur \<noteq> [] then cur @ [CHR 0x0A, CHR 0x0A] @ ?p else ?p"
      from ne True Cons.prems(4) have r: "paragraph_loop self source ps cks ?cur' cid = Inr res"
        by (simp add: Let_def)
      from True have "int (length ?cur') \<le> chunk_size self + 1" by auto
      from Cons.IH [OF Cons.prems(1,2) this r] show ?thesis .
    next
      case nofit: False
      show ?thesis
      proof (cases "int (length ?p) > chunk_size self")
        case False
        with ne nofit Cons.prems(4) have r: "paragraph_loop self source ps ?cks1 ?p ?id1 = Inr res"
          by (simp add: Let_def)
        from False have "int (length ?p) \<le> chunk_size self + 1" by simp
        from Cons.IH [OF Cons.prems(1) b1 this r] show ?thesis .
      next
        case True
        with ne nofit Cons.prems(4) obtain sc where
          sc: "split_long_text self ?p source ?id1 = Inr sc" and
          r: "paragraph_loop self source ps (?cks1 @ sc) [] (?id1 + int (length sc)) = Inr res"
          by (simp add: Let_def split: sum.splits)
        have "\<forall>c \<in> set sc. char_count_le (chunk_size self + 1) c"
          using split_long_bound [OF Cons.prems(1) sc] char_count_le_mono by fastforce
        then have "\<forall>c \<in> set (?cks1 @ sc). char_count_le (chunk_size self + 1) c"
          using b1 by auto
        moreover have "int (length ([] :: string)) \<le> chunk_size self + 1"
          using Cons.prems(1) by simp
        ultimately show ?thesis using Cons.IH [OF Cons.prems(1) _ _ r] by blast
      qed
    qed
  qed
qed

lemma smart_chunk_text_bound:
  "0 < chunk_size self \<Longrightarrow> smart_chunk_text self txt source = Inr cks \<Longrightarrow>
   \<forall>c \<in> set cks. char_count_le (chunk_size self + 1) c"
  unfolding smart_chunk_text_def using paragraph_loop_bound [of self "[]" "[]"] by simp

section \<open>The ranking of a search\<close>

lemma np_lt_asym: "np_lt a b \<Longrightarrow> \<not> np_lt b a"
  by (cases a; cases b) (auto simp: np_lt_def)

lemma np_lt_trans: "np_lt a b \<Longrightarrow> np_lt b c \<Longrightarrow> np_lt a c"
  by (cases a; cases b; cases c) (auto simp: np_lt_def)

lemma set_ins_idx: "set (ins_idx v i js) = insert i (set js)"
  by (induction js) auto

lemma length_ins_idx: "length (ins_idx v i js) = Suc (length js)"
  by (induction js) auto

lemma sorted_ins_idx:
  "sorted_wrt (\<lambda>a b. \<not> np_lt (v ! b) (v ! a)) js \<Longrightarrow>
   sorted_wrt (\<lambda>a b. \<not> np_lt (v ! b) (v ! a)) (ins_idx v i js)"
proof (induction js)
  case Nil
  show ?case by simp
next
  case (Cons j js)
  show ?case
  proof (cases "np_lt (v ! i) (v ! j)")
    case True
    have "\<not> np_lt (v ! x) (v ! i)" if "x \<in> set js" for x
    proof
      assume "np_lt (v ! x) (v ! i)"
      then have "np_lt (v ! x) (v ! j)" using True by (rule np_lt_trans)
      with Cons.prems that show False by simp
    qed
    with True Cons.prems show ?thesis by (auto dest: np_lt_asym)
  next
    case False
    with Cons show ?thesis by (auto simp: set_ins_idx)
  qed
qed

lemma argsort_Suc:
  "foldr (ins_idx v) (rev [0..<Suc n]) [] = ins_idx v n (foldr (ins_idx v) (rev [0..<n]) [])"
  by simp

lemma sorted_argsort_aux:
  "sorted_wrt (\<lambda>a b. \<not> np_lt (v ! b) (v ! a)) (foldr (ins_idx v) (rev [0..<n]) [])"
proof (induction n)
  case 0
  show ?case by simp
next
  case (Suc n)
  then show ?case unfolding argsort_Suc by (rule sorted_ins_idx)
qed

lemma sorted_argsort: "sorted_wrt (\<lambda>a b. \<not> np_lt (v ! b) (v ! a)) (argsort v)"
  unfolding argsort_def by (rule sorted_argsort_aux)

lemma length_argsort_aux: "length (foldr (ins_idx v) (rev [0..<n]) []) = n"
  by (induction n) (simp_all add: length_ins_idx del: upt_Suc add: argsort_Suc)

lemma length_argsort: "length (argsort v) = length v"
  unfolding argsort_def by (rule length_argsort_aux)

lemma set_argsort_aux: "set (foldr (ins_idx v) (rev [0..<n]) []) = {0..<n}"
  by (induction n) (auto simp: set_ins_idx)

lemma set_argsort: "set (argsort v) = {0..<length v}"
  unfolding argsort_def by (rule set_argsort_aux)

lemma sorted_wrt_py_slice: "sorted_wrt R xs \<Longrightarrow> sorted_wrt R (py_slice xs i j)"
  by (simp add: py_slice_def Let_def sorted_wrt_take sorted_wrt_drop)

lemma sorted_top_indices:
  "sorted_wrt (\<lambda>a b. \<not> np_lt (sims ! a) (sims ! b)) (top_indices sims top_k)"
  unfolding top_indices_def
  by (rule sorted_wrt_py_slice) (simp add: sorted_wrt_rev sorted_argsort)

lemma length_top_indices: "0 \<le> top_k \<Longrightarrow> int (length (top_indices sims top_k)) \<le> top_k"
  by (simp add: top_indices_def py_slice_def Let_def)

section \<open>The result loop of a search\<close>

lemma make_result_score: "make_result s idx sc = Inr r \<Longrightarrow> res_score r = sc"
  by (auto simp: make_result_def split: if_splits option.splits)

lemma build_results_scores:
  "build_results s sims thr idxs = Inr rs \<Longrightarrow>
   map res_score rs = filter (\<lambda>x. fge x thr) (map ((!) sims) idxs)"
proof (induction idxs arbitrary: rs)
  case Nil
  then show ?case by simp
next
  case (Cons idx rest)
  show ?case
  proof (cases "fge (sims ! idx) thr")
    case True
    with Cons.prems obtain r rs' where
      r: "make_result s idx (sims ! idx) = Inr r" and
      rest: "build_results s sims thr rest = Inr rs'" and rs: "rs = r # rs'"
      by (auto simp: Let_def split: sum.splits)
    from Cons.IH [OF rest] make_result_score [OF r] True rs show ?thesis by simp
  next
    case False
    with Cons show ?thesis by (simp add: Let_def)
  qed
qed

lemma search_similar_state: "snd (search_similar q top_k thr s) = s"
  by (simp add: search_similar_def split: sum.splits)

lemma search_similar_not_raised: "fst (search_similar q top_k thr s) \<noteq> Raised e"
  by (simp add: search_similar_def split: sum.splits)

lemma search_similar_value:
  assumes "value_of (fst (search_similar q top_k thr s)) = Some rs" and "rs \<noteq> []"
  shows "\<exists>sims. similarities s q = Inr sims \<and>
           build_results s sims thr (top_indices sims top_k) = Inr rs"
  using assms by (auto simp: search_similar_def split: sum.splits if_splits)

lemma search_similar_scores:
  assumes "value_of (fst (search_similar q top_k thr s)) = Some rs" and "rs \<noteq> []"
  shows "\<exists>sims. similarities s q = Inr sims \<and>
           map res_score rs = filter (\<lambda>x. fge x thr) (map ((!) sims) (top_indices sims top_k))"
  using search_similar_value [OF assms] build_results_scores by blast

lemma fge_sorted_filter:
  assumes "sorted_wrt (\<lambda>a b. \<not> np_lt (sims ! a) (sims ! b)) idxs"
  shows "sorted_wrt fge (filter (\<lambda>x. fge x thr) (map ((!) sims) idxs))"
proof -
  have "sorted_wrt (\<lambda>x y. \<not> np_lt x y) (map ((!) sims) idxs)"
    using assms by (simp add: sorted_wrt_map)
  then have srt: "sorted_wrt (\<lambda>x y. \<not> np_lt x y) (filter (\<lambda>x. fge x thr) (map ((!) sims) idxs))"
    by (rule sorted_wrt_filter)
  have ge: "fge x y" if "fge x thr" "fge y thr" "\<not> np_lt x y" for x y
    using that by (cases x; cases y; cases thr) (auto simp: np_lt_def)
  show ?thesis
  proof (rule sorted_wrt_mono_rel [OF _ srt])
    fix x y
    assume "x \<in> set (filter (\<lambda>x. fge x thr) (map ((!) sims) idxs))"
      and "y \<in> set (filter (\<lambda>x. fge x thr) (map ((!) sims) idxs))"
      and "\<not> np_lt x y"
    then show "fge x y" using ge by simp
  qed
qed

lemma top_indices_count: "top_indices sims (int k) = take k (rev (argsort sims))"
  by (simp add: top_indices_def py_slice_def Let_def min_def length_argsort)

lemma set_top_indices: "set (top_indices sims top_k) \<subseteq> {0..<length sims}"
proof -
  have "set (py_slice (rev (argsort sims)) 0 top_k) \<subseteq> set (rev (argsort sims))"
    unfolding py_slice_def Let_def using set_take_subset set_drop_subset by fast
  then show ?thesis by (simp add: top_indices_def set_argsort)
qed

lemma make_result_total:
  assumes "idx < length (chunks s)" and "idx < length (metadata s)"
    and "map_of (chunks s ! idx) ''text'' \<noteq> None"
    and "map_of (chunks s ! idx) ''chunk_id'' \<noteq> None"
    and "map_of (chunks s ! idx) ''source'' = Some (PStr src)"
  shows "\<exists>r. make_result s idx sc = Inr r \<and> res_source r = PStr src"
  using assms by (auto simp: make_result_def)

lemma build_results_total:
  assumes "\<forall>idx \<in> set idxs. \<exists>r. make_result s idx (sims ! idx) = Inr r \<and> is_str (res_source r)"
  shows "\<exists>rs. build_results s sims thr idxs = Inr rs \<and> list_all (\<lambda>r. is_str (res_source r)) rs"
  using assms
proof (induction idxs)
  case Nil
  show ?case by simp
next
  case (Cons idx rest)
  then obtain rs where rs: "build_results s sims thr rest = Inr rs"
    and st: "list_all (\<lambda>r. is_str (res_source r)) rs"
    by auto
  from Cons.prems obtain r where r: "make_result s idx (sims ! idx) = Inr r"
    and sr: "is_str (res_source r)"
    by auto
  show ?case
    using rs st r sr by (simp add: Let_def)
qed

lemma list_all_take: "list_all P xs \<Longrightarrow> list_all P (take n xs)"
  by (auto simp: list_all_iff dest: in_set_takeD)

lemma searchable_returns:
  assumes "searchable s q"
  shows "\<exists>rs. fst (search_similar q top_k thr s) = Returned rs"
proof -
  from assms have ne: "embeddings s \<noteq> []"
    and dims: "\<forall>v \<in> set (embeddings s). length v = length q"
    and lc: "length (embeddings s) \<le> length (chunks s)"
    and lm: "length (embeddings s) \<le> length (metadata s)"
    and keys0: "\<forall>c \<in> set (chunks s). map_of c ''text'' \<noteq> None \<and> map_of c ''chunk_id'' \<noteq> None \<and>
                 (case map_of c ''source'' of Some src \<Rightarrow> is_str src | None \<Rightarrow> False)"
    by (simp_all add: searchable_def list_all_iff)
  have str: "\<exists>src. v = PStr src" if "is_str v" for v
    using that by (cases v) auto
  have keys: "\<forall>c \<in> set (chunks s). map_of c ''text'' \<noteq> None \<and> map_of c ''chunk_id'' \<noteq> None \<and>
                 (\<exists>src. map_of c ''source'' = Some (PStr src))"
    using keys0 str by (fastforce split: option.splits)
  from ne dims have hd: "length (hd (embeddings s)) = length q" by (cases "embeddings s") auto
  with dims have u: "uniform (embeddings s)" by (simp add: uniform_def)
  define sims where "sims = map (\<lambda>row. fdot row (unit_vector q)) (map unit_vector (embeddings s))"
  have sm: "similarities s q = Inr sims"
    using ne hd u by (simp add: similarities_def np_array2_def Let_def sims_def)
  have ls: "length sims = length (embeddings s)" by (simp add: sims_def)
  have "\<exists>r. make_result s idx (sims ! idx) = Inr r \<and> is_str (res_source r)"
    if "idx \<in> set (top_indices sims top_k)" for idx
  proof -
    from that set_top_indices [of sims top_k] ls have i: "idx < length (embeddings s)" by auto
    with lc lm have ic: "idx < length (chunks s)" and im: "idx < length (metadata s)" by simp_all
    then have "chunks s ! idx \<in> set (chunks s)" by simp
    with keys obtain src where "map_of (chunks s ! idx) ''text'' \<noteq> None"
      "map_of (chunks s ! idx) ''chunk_id'' \<noteq> None"
      "map_of (chunks s ! idx) ''source'' = Some (PStr src)"
      by blast
    from make_result_total [OF ic im this, of "sims ! idx"] obtain r where
      "make_result s idx (sims ! idx) = Inr r" and "res_source r = PStr src"
      by blast
    then have "make_result s idx (sims ! idx) = Inr r \<and> is_str (res_source r)" by simp
    then show ?thesis ..
  qed
  then obtain rs where rs: "build_results s sims thr (top_indices sims top_k) = Inr rs"
    and st: "list_all (\<lambda>r. is_str (res_source r)) rs"
    using build_results_total [of "top_indices sims top_k" s sims thr] by blast
  from st have "list_all (\<lambda>r. is_str (res_source r)) (take 3 rs)" by (rule list_all_take)
  with ne sm rs show ?thesis by (simp add: search_similar_def)
qed

section \<open>Rounding, and vectors of zeros\<close>

lemma round32_zero [simp]: "round32 0 = Fin 0"
  by (simp add: round32_def)

lemma round_half_even_of_int [simp]: "round_half_even (of_int n) = n"
  by (simp add: round_half_even_def)

lemma round_half_even_small: "0 \<le> x \<Longrightarrow> x < 1 / 2 \<Longrightarrow> round_half_even x = 0"
proof -
  assume a: "0 \<le> x" "x < 1 / 2"
  then have "\<lfloor>x\<rfloor> = 0" by (simp add: floor_eq_iff)
  with a show ?thesis by (simp add: round_half_even_def Let_def)
qed

lemma round32_one [simp]: "round32 1 = Fin 1"
proof -
  have q: "(2::real) powr (- 23) = 1 / 2 ^ 23" by (simp add: powr_minus_divide)
  have "(1::real) / 2 powr (- 23) = of_int (2 ^ 23)" unfolding q by simp
  then have "round_half_even (1 / 2 powr (- 23)) = 2 ^ 23"
    by (simp only: round_half_even_of_int)
  then show ?thesis
    by (simp add: round32_def Let_def q)
qed

lemma round32_minus_one [simp]: "round32 (- 1) = Fin (- 1)"
proof -
  have q: "(2::real) powr (- 23) = 1 / 2 ^ 23" by (simp add: powr_minus_divide)
  have "(- 1::real) / 2 powr (- 23) = of_int (- (2 ^ 23))" unfolding q by simp
  then have "round_half_even (- 1 / 2 powr (- 23)) = - (2 ^ 23)"
    by (simp only: round_half_even_of_int)
  then show ?thesis
    by (simp add: round32_def Let_def q)
qed

text \<open>
  Underflow: the square of \<open>2 powr (- 100)\<close> rounds to 0, so the vector of that one
  component has norm 0 without being zero, and dividing it by its norm gives an infinity,
  not \<open>NaN\<close>.
\<close>

lemma round32_underflow: "round32 (2 powr (- 200)) = Fin 0"
proof -
  have l: "\<lfloor>log 2 \<bar>2 powr (- 200)\<bar>\<rfloor> = - 200" by simp
  have "(2::real) powr (- 200) / 2 powr (- 149) = 2 powr (- 51)"
    by (simp add: powr_diff [symmetric])
  moreover have "0 < (2::real) powr (- 51)" "(2::real) powr (- 51) < 1 / 2"
    by (simp_all add: powr_minus_divide)
  ultimately have "round_half_even (2 powr (- 200) / 2 powr (- 149)) = 0"
    by (simp add: round_half_even_small)
  then show ?thesis
    by (simp add: round32_def Let_def l)
qed

lemma underflow_norm_zero:
  "fnorm [Fin (2 powr (- 100))] = Fin 0 \<and> unit_vector [Fin (2 powr (- 100))] = [PInf]"
proof -
  have "(2::real) powr (- 100) * 2 powr (- 100) = 2 powr (- 200)"
    by (simp add: powr_add [symmetric])
  then have n: "fnorm [Fin (2 powr (- 100))] = Fin 0"
    by (simp add: fnorm_def fsum_def round32_underflow)
  have "\<not> (2::real) powr (- 100) < 0" "(2::real) powr (- 100) \<noteq> 0"
    by (simp_all add: not_less)
  with n show ?thesis by (simp add: unit_vector_def)
qed

lemma fadd_NaN_right [simp]: "fadd a NaN = NaN"
  by (cases a) simp_all

lemma fmul_NaN_right [simp]: "fmul a NaN = NaN"
  by (cases a) simp_all

lemma foldl_fadd_NaN: "foldl fadd NaN xs = NaN"
  by (induction xs) simp_all

lemma foldl_fadd_zeros: "\<forall>x \<in> set xs. x = Fin 0 \<Longrightarrow> foldl fadd (Fin 0) xs = Fin 0"
  by (induction xs) simp_all

lemma fnorm_zeros: "\<forall>x \<in> set v. x = Fin 0 \<Longrightarrow> fnorm v = Fin 0"
proof -
  assume z: "\<forall>x \<in> set v. x = Fin 0"
  then have "\<forall>y \<in> set (map (\<lambda>x. fmul x x) v). y = Fin 0" by auto
  then have "fsum (map (\<lambda>x. fmul x x) v) = Fin 0"
    unfolding fsum_def by (rule foldl_fadd_zeros)
  then show ?thesis by (simp add: fnorm_def)
qed

lemma unit_vector_zeros:
  assumes "\<forall>x \<in> set v. x = Fin 0"
  shows "unit_vector v = replicate (length v) NaN"
proof -
  have "map (\<lambda>x. fdiv x (Fin 0)) v = map (\<lambda>x. NaN) v"
    using assms by (intro map_cong) auto
  then show ?thesis
    using fnorm_zeros [OF assms] by (simp add: unit_vector_def map_replicate_const)
qed

lemma fdot_NaN_left: "n \<noteq> 0 \<Longrightarrow> length b = n \<Longrightarrow> fdot (replicate n NaN) b = NaN"
  by (cases n; cases b) (simp_all add: fdot_def fsum_def foldl_fadd_NaN)

lemma fdot_NaN_right: "n \<noteq> 0 \<Longrightarrow> length a = n \<Longrightarrow> fdot a (replicate n NaN) = NaN"
  by (cases n; cases a) (simp_all add: fdot_def fsum_def foldl_fadd_NaN)

lemma similarities_nth:
  assumes "similarities s q = Inr sims" and "i < length sims"
  shows "sims ! i = fdot (unit_vector (embeddings s ! i)) (unit_vector q)"
    and "length (embeddings s ! i) = length q" and "i < length (embeddings s)"
proof -
  from assms(1) have u: "uniform (embeddings s)"
    and d: "length (hd (embeddings s)) = length q"
    and sims: "sims = map (\<lambda>row. fdot row (unit_vector q)) (map unit_vector (embeddings s))"
    by (auto simp: similarities_def np_array2_def Let_def split: if_splits)
  from sims assms(2) show i: "i < length (embeddings s)" by simp
  with sims show "sims ! i = fdot (unit_vector (embeddings s ! i)) (unit_vector q)" by simp
  from u i d show "length (embeddings s ! i) = length q" by (simp add: uniform_def)
qed

lemma zero_vector_similarity:
  assumes "similarities s q = Inr sims" and "i < length sims" and "q \<noteq> []"
    and "(\<forall>x \<in> set q. x = Fin 0) \<or> (\<forall>x \<in> set (embeddings s ! i). x = Fin 0)"
  shows "sims ! i = NaN"
proof -
  note n = similarities_nth [OF assms(1,2)]
  have len: "length (unit_vector (embeddings s ! i)) = length q" "length (unit_vector q) = length q"
    using n(2) by (simp_all add: unit_vector_def)
  from assms(4) show ?thesis
  proof
    assume "\<forall>x \<in> set q. x = Fin 0"
    then show ?thesis
      using n(1) len assms(3) fdot_NaN_right [of "length q" "unit_vector (embeddings s ! i)"]
      by (simp add: unit_vector_zeros)
  next
    assume "\<forall>x \<in> set (embeddings s ! i). x = Fin 0"
    then show ?thesis
      using n(1,2) len assms(3) fdot_NaN_left [of "length q" "unit_vector q"]
      by (simp add: unit_vector_zeros)
  qed
qed

section \<open>Inserting and clearing\<close>

lemmas demo_eval =
  demo_store_def demo_chunk_def init_def load_from_disk_def insert_documents_def np_array2_def
  uniform_def metadata_of_def save_to_disk_def search_similar_def similarities_def unit_vector_def
  fnorm_def fsum_def fdot_def top_indices_def argsort_def np_lt_def py_slice_def make_result_def
  Let_def upt_rec

lemma all_metadata_length: "all_metadata cks = Inr ms \<Longrightarrow> length ms = length cks"
  by (induction cks arbitrary: ms) (auto split: sum.splits)

lemma all_metadata_map: "all_metadata cks = Inr ms \<Longrightarrow> map metadata_of cks = map Inr ms"
  by (induction cks arbitrary: ms) (auto split: sum.splits)

lemma all_metadata_total:
  "\<forall>c \<in> set cks. map_of c ''chunk_id'' \<noteq> None \<and> map_of c ''source'' \<noteq> None \<Longrightarrow>
   \<exists>ms. all_metadata cks = Inr ms"
  by (induction cks) (auto simp: metadata_of_def split: sum.splits option.splits)

lemma insert_returned:
  assumes "insert_documents cks embs fate s = (Returned v, s')"
  shows "v = PNone" and "length cks = length embs" and "uniform embs"
    and "chunks s' = chunks s @ cks" and "embeddings s' = embeddings s @ embs"
    and "\<exists>ms. all_metadata cks = Inr ms \<and> metadata s' = metadata s @ ms"
    and "fate = Written \<longrightarrow> disk s' = Snapshot (chunks s') (embeddings s') (metadata s')"
  using assms
  by (auto simp: insert_documents_def np_array2_def save_to_disk_def Let_def
           split: if_splits sum.splits write_fate.splits)

lemma get_status_state: "snd (get_status s) = s"
  by (simp add: get_status_def split: sum.splits)

lemma insert_parallel:
  assumes "insert_documents cks embs fate s = (out, s')" and "succeeded out" and "parallel s"
  shows "parallel s'"
proof -
  from assms(2) obtain v where "out = Returned v" by (cases out) auto
  with assms(1) have r: "insert_documents cks embs fate s = (Returned v, s')" by simp
  from insert_returned(6) [OF r] obtain ms where
    "all_metadata cks = Inr ms" and m: "metadata s' = metadata s @ ms" by blast
  then have "length ms = length cks" by (simp add: all_metadata_length)
  with insert_returned(2,4,5) [OF r] m assms(3) show ?thesis
    by (simp add: parallel_def)
qed

lemma clear_parallel: "clear_database ok s = (out, s') \<Longrightarrow> parallel s'"
  by (auto simp: clear_database_def parallel_def Let_def split: if_splits)

lemma run_parallel: "parallel s0 \<Longrightarrow> run ops s0 = Some s \<Longrightarrow> parallel s"
proof (induction ops s0 rule: run.induct)
  case (1 s0)
  then show ?case by simp
next
  case (2 cks embs fate ops s0)
  then show ?case
    by (auto split: prod.splits if_splits dest: insert_parallel)
next
  case (3 ok ops s0)
  then show ?case
    by (auto split: prod.splits if_splits dest: clear_parallel)
next
  case (4 q k t ops s0)
  then show ?case by (simp add: search_similar_state)
next
  case (5 ops s0)
  then show ?case by (simp add: get_status_state)
qed

section \<open>Claims about the chunker\<close>

text \<open>
  C3, evaluated on the code. With \<open>chunk_size = 10\<close> the text has the two paragraphs
  \<open>AAAA\<close> and \<open>BBBBB\<close>, neither longer than 10. The test
  \<open>len(current_chunk) + len(para) < chunk_size\<close> reads \<open>4 + 5 < 10\<close> and joins them with
  the two-character separator it did not count: the one chunk produced has
  \<open>char_count = 11\<close>, above \<open>chunk_size\<close>, and comes from no indivisible unit. One
  above is as far as it goes (lemma \<open>smart_chunk_text_bound\<close>); the sentence and window
  levels keep to \<open>chunk_size\<close> (lemmas \<open>split_long_bound\<close>, \<open>force_split_bound\<close>).
\<close>

theorem joined_paragraphs_exceed_chunk_size:
  "split_paragraphs ''AAAA\<newline>\<newline>BBBBB'' = [''AAAA'', ''BBBBB''] \<and>
   smart_chunk_text \<lparr>chunk_size = 10, overlap = 2\<rparr> ''AAAA\<newline>\<newline>BBBBB'' ''doc.txt'' =
     Inr [[(''text'', PStr ''AAAA\<newline>\<newline>BBBBB''), (''chunk_id'', PStr ''doc_chunk_0''),
           (''source'', PStr ''doc.txt''), (''chunk_number'', PInt 0),
           (''char_count'', PInt 11), (''word_count'', PInt 2),
           (''char_start'', PInt 0), (''char_end'', PInt 11)]]"
  by code_simp

text \<open>
  C4, evaluated on the code. With \<open>chunk_size = 5\<close> and \<open>overlap = 0\<close> the ten characters
  \<open>AAAA BBBBB\<close> are one paragraph and one sentence, so they are cut into windows of five.
  The first window is \<open>AAAA\<close> followed by a space: \<open>_create_chunk\<close> stores the stripped
  text \<open>AAAA\<close>, of length 4, next to \<open>char_count = 5\<close>, the length before stripping
  (never less than the stored length, lemma \<open>length_strip_le\<close>).
\<close>

theorem window_char_count_counts_stripped_space:
  "smart_chunk_text \<lparr>chunk_size = 5, overlap = 0\<rparr> ''AAAA BBBBB'' ''doc.txt'' =
     Inr [[(''text'', PStr ''AAAA''), (''chunk_id'', PStr ''doc_chunk_0''),
           (''source'', PStr ''doc.txt''), (''chunk_number'', PInt 0),
           (''char_count'', PInt 5), (''word_count'', PInt 1),
           (''char_start'', PInt 0), (''char_end'', PInt 5)],
          [(''text'', PStr ''BBBBB''), (''chunk_id'', PStr ''doc_chunk_1''),
           (''source'', PStr ''doc.txt''), (''chunk_number'', PInt 1),
           (''char_count'', PInt 5), (''word_count'', PInt 1),
           (''char_start'', PInt 0), (''char_end'', PInt 5)]]"
  by code_simp

text \<open>
  C9. For every text and source, the \<open>chunk_number\<close> fields of the \<open>k\<close> chunks that
  \<open>smart_chunk_text\<close> returns are \<open>0, 1, ..., k - 1\<close> in the order of the list, whichever
  of the paragraph, sentence and window levels made each chunk. The call returns a list
  unless \<open>overlap\<close> equals \<open>chunk_size\<close>, where the \<open>range\<close> of the window level may
  raise for its zero step.
\<close>

theorem chunk_numbers_contiguous:
  "(chunk_size self \<noteq> overlap self \<longrightarrow> (\<exists>cks. smart_chunk_text self txt source = Inr cks)) \<and>
   (\<forall>cks. smart_chunk_text self txt source = Inr cks \<longrightarrow>
      chunk_numbers cks = map (\<lambda>k. Some (PInt (int k))) [0..<length cks])"
proof (intro conjI impI allI)
  assume "chunk_size self \<noteq> overlap self"
  then show "\<exists>cks. smart_chunk_text self txt source = Inr cks"
    unfolding smart_chunk_text_def by (rule paragraph_loop_returns)
next
  fix cks
  assume "smart_chunk_text self txt source = Inr cks"
  then have "numbered 0 cks"
    unfolding smart_chunk_text_def using numbered_paragraph_loop [of 0 "[]" 0] by simp
  then show "chunk_numbers cks = map (\<lambda>k. Some (PInt (int k))) [0..<length cks]"
    by (simp add: numbered_def)
qed

text \<open>
  The theorem of C9 at a text whose four chunks come from all three levels: \<open>Intro\<close> from
  the paragraph level, \<open>One.\<close> from the sentence level and two windows of the sentence
  \<open>Two two two two.\<close>, which is longer than 12.
\<close>

lemma demo_chunks:
  "map (\<lambda>c. map_of c ''text'') (projr (smart_chunk_text demo_processor demo_text ''doc.txt''))
   = [Some (PStr ''Intro''), Some (PStr ''One.''), Some (PStr ''Two two two''),
      Some (PStr ''wo two.'')]"
  by code_simp

theorem chunk_numbers_contiguous_witness:
  "chunk_size demo_processor \<noteq> overlap demo_processor \<and>
   (\<exists>cks. smart_chunk_text demo_processor demo_text ''doc.txt'' = Inr cks \<and>
      chunk_numbers cks = [Some (PInt 0), Some (PInt 1), Some (PInt 2), Some (PInt 3)])"
proof -
  have ne: "chunk_size demo_processor \<noteq> overlap demo_processor"
    by (simp add: demo_processor_def)
  with chunk_numbers_contiguous [of demo_processor demo_text "''doc.txt''"]
  obtain cks where r: "smart_chunk_text demo_processor demo_text ''doc.txt'' = Inr cks"
    and n: "chunk_numbers cks = map (\<lambda>k. Some (PInt (int k))) [0..<length cks]"
    by blast
  have "length cks = 4"
    using demo_chunks r by (simp add: list_eq_iff_nth_eq)
  with n have "chunk_numbers cks = [Some (PInt 0), Some (PInt 1), Some (PInt 2), Some (PInt 3)]"
    by (simp add: upt_rec)
  with ne r show ?thesis by simp
qed

section \<open>Claims about inserting\<close>

text \<open>
  C1. When the list of chunks and the list of vectors differ in length, \<open>insert_documents\<close>
  raises to its caller the \<open>ValueError\<close> of its count check (the error the specification
  names DimensionMismatch) and the store after the call is the store before it: chunks,
  embeddings, metadata and the file are untouched.
\<close>

theorem insert_count_mismatch:
  "length cks \<noteq> length embs \<Longrightarrow>
   insert_documents cks embs fate s =
     (Raised (ValueError (CountMismatch (length cks) (length embs))), s)"
  by (simp add: insert_documents_def)

text \<open>The theorem of C1 at one chunk and no vector, on a store that holds an entry.\<close>

theorem insert_count_mismatch_witness:
  "length [demo_chunk ''b''] \<noteq> length ([] :: vec list) \<and>
   insert_documents [demo_chunk ''b''] [] Written (demo_store [(''a'', [Fin 1, Fin 0])]) =
     (Raised (ValueError (CountMismatch 1 0)), demo_store [(''a'', [Fin 1, Fin 0])])"
  using insert_count_mismatch [of "[demo_chunk ''b'']" "[] :: vec list" Written
          "demo_store [(''a'', [Fin 1, Fin 0])]"]
  by simp

text \<open>
  C7 as stated fails. A store that holds a vector of two components accepts a vector
  of three: the call returns normally and the store then holds both dimensions. A
  batch whose own vectors differ in length makes numpy raise inside \<open>try\<close>; the handler
  prints and returns, so no error reaches the caller.
\<close>

theorem insert_mixed_dimension_counterexample:
  "fst (insert_documents [demo_chunk ''b''] [[Fin 1, Fin 0, Fin 0]] NotOpened
          (demo_store [(''a'', [Fin 1, Fin 0])])) = Returned PNone \<and>
   embeddings (snd (insert_documents [demo_chunk ''b''] [[Fin 1, Fin 0, Fin 0]] NotOpened
          (demo_store [(''a'', [Fin 1, Fin 0])]))) = [[Fin 1, Fin 0], [Fin 1, Fin 0, Fin 0]] \<and>
   fst (insert_documents [demo_chunk ''b'', demo_chunk ''c''] [[Fin 1], [Fin 1, Fin 0]] NotOpened
          (demo_store [(''a'', [Fin 1, Fin 0])])) = Caught (ValueError Inhomogeneous) PNone"
  by (simp add: demo_eval)

text \<open>
  C7, amended. \<open>insert_documents\<close> compares no vector with the vectors already stored. For
  equally many chunks and vectors: when the vectors of the batch share one length, they are
  appended to the stored vectors whatever the stored dimensionality, and nothing is raised;
  when they do not, the \<open>ValueError\<close> of numpy is caught inside, \<open>None\<close> is returned and
  the store is unchanged.
\<close>

theorem insert_dimension_unchecked:
  "length cks = length embs \<Longrightarrow>
   (uniform embs \<longrightarrow>
      embeddings (snd (insert_documents cks embs fate s)) = embeddings s @ embs \<and>
      (\<forall>e. fst (insert_documents cks embs fate s) \<noteq> Raised e)) \<and>
   (\<not> uniform embs \<longrightarrow>
      insert_documents cks embs fate s = (Caught (ValueError Inhomogeneous) PNone, s))"
  by (auto simp: insert_documents_def np_array2_def save_to_disk_def Let_def
           split: sum.splits write_fate.splits)

text \<open>The amended C7 at a batch of one length and at a batch of two lengths.\<close>

theorem insert_dimension_unchecked_witness:
  "length [demo_chunk ''b''] = length [[Fin 1, Fin 0, Fin 0]] \<and>
   uniform [[Fin 1, Fin 0, Fin 0]] \<and>
   embeddings (snd (insert_documents [demo_chunk ''b''] [[Fin 1, Fin 0, Fin 0]] Written
                      (demo_store [(''a'', [Fin 1, Fin 0])])))
     = [[Fin 1, Fin 0], [Fin 1, Fin 0, Fin 0]] \<and>
   length [demo_chunk ''b'', demo_chunk ''c''] = length [[Fin 1], [Fin 1, Fin 0]] \<and>
   \<not> uniform [[Fin 1], [Fin 1, Fin 0]] \<and>
   insert_documents [demo_chunk ''b'', demo_chunk ''c''] [[Fin 1], [Fin 1, Fin 0]] Written
       (demo_store [(''a'', [Fin 1, Fin 0])])
     = (Caught (ValueError Inhomogeneous) PNone, demo_store [(''a'', [Fin 1, Fin 0])])"
proof -
  have u: "uniform [[Fin 1, Fin 0, Fin 0]]" and nu: "\<not> uniform [[Fin 1], [Fin 1, Fin 0]]"
    by (simp_all add: uniform_def)
  have e: "embeddings (demo_store [(''a'', [Fin 1, Fin 0])]) = [[Fin 1, Fin 0]]"
    by (simp add: demo_eval)
  show ?thesis
    using u nu e
      insert_dimension_unchecked [of "[demo_chunk ''b'']" "[[Fin 1, Fin 0, Fin 0]]" Written
        "demo_store [(''a'', [Fin 1, Fin 0])]"]
      insert_dimension_unchecked [of "[demo_chunk ''b'', demo_chunk ''c'']"
        "[[Fin 1], [Fin 1, Fin 0]]" Written "demo_store [(''a'', [Fin 1, Fin 0])]"]
    by simp
qed

text \<open>
  C8 as stated fails on the returned value. Inserting one chunk with its vector into a
  fresh store returns \<open>None\<close>; the new total, 1, is the length of the chunk list and is
  only printed.
\<close>

theorem insert_returns_count_counterexample:
  "value_of (fst (insert_documents [demo_chunk ''a''] [[Fin 1, Fin 0]] Written (init Absent)))
     = Some PNone \<and>
   length (chunks (snd (insert_documents [demo_chunk ''a''] [[Fin 1, Fin 0]] Written (init Absent))))
     = 1"
  by (simp add: demo_eval)

text \<open>
  C8, amended. An insert succeeds when the two lists have one length, the vectors have
  one length and every chunk has the keys \<open>chunk_id\<close> and \<open>source\<close>. Every successful
  insert appends the chunks, the vectors and the metadata derived from each chunk, in the
  given order; when the write succeeds the file holds the three lists as they then are;
  the chunk list has grown by the number of chunks given; and the value returned is
  \<open>None\<close>, not the new total.
\<close>

theorem insert_appends_and_persists:
  "(length cks = length embs \<and> uniform embs \<and>
    (\<forall>c \<in> set cks. map_of c ''chunk_id'' \<noteq> None \<and> map_of c ''source'' \<noteq> None)
    \<longrightarrow> (\<exists>s'. insert_documents cks embs fate s = (Returned PNone, s'))) \<and>
   (\<forall>v s'. insert_documents cks embs fate s = (Returned v, s') \<longrightarrow>
      v = PNone \<and>
      chunks s' = chunks s @ cks \<and>
      embeddings s' = embeddings s @ embs \<and>
      (\<exists>ms. map metadata_of cks = map Inr ms \<and> metadata s' = metadata s @ ms) \<and>
      (fate = Written \<longrightarrow> disk s' = Snapshot (chunks s') (embeddings s') (metadata s')) \<and>
      length (chunks s') = length (chunks s) + length cks)"
proof (intro conjI impI allI)
  assume "length cks = length embs \<and> uniform embs \<and>
    (\<forall>c \<in> set cks. map_of c ''chunk_id'' \<noteq> None \<and> map_of c ''source'' \<noteq> None)"
  then show "\<exists>s'. insert_documents cks embs fate s = (Returned PNone, s')"
    using all_metadata_total [of cks]
    by (auto simp: insert_documents_def np_array2_def Let_def)
next
  fix v s'
  assume r: "insert_documents cks embs fate s = (Returned v, s')"
  note f = insert_returned [OF r]
  show "v = PNone" by (rule f)
  show "chunks s' = chunks s @ cks" by (rule f)
  show "embeddings s' = embeddings s @ embs" by (rule f)
  show "\<exists>ms. map metadata_of cks = map Inr ms \<and> metadata s' = metadata s @ ms"
    using f(6) all_metadata_map by blast
  show "fate = Written \<Longrightarrow> disk s' = Snapshot (chunks s') (embeddings s') (metadata s')"
    using f(7) by simp
  show "length (chunks s') = length (chunks s) + length cks"
    using f(4) by simp
qed

text \<open>The amended C8 at the insert of one chunk into a store that holds one entry.\<close>

theorem insert_appends_and_persists_witness:
  "length [demo_chunk ''b''] = length [[Fin 0, Fin 1]] \<and> uniform [[Fin 0, Fin 1]] \<and>
   map_of (demo_chunk ''b'') ''chunk_id'' \<noteq> None \<and> map_of (demo_chunk ''b'') ''source'' \<noteq> None \<and>
   (\<exists>s'. insert_documents [demo_chunk ''b''] [[Fin 0, Fin 1]] Written
            (demo_store [(''a'', [Fin 1, Fin 0])]) = (Returned PNone, s') \<and>
      chunks s' = [demo_chunk ''a'', demo_chunk ''b''] \<and>
      embeddings s' = [[Fin 1, Fin 0], [Fin 0, Fin 1]] \<and>
      disk s' = Snapshot (chunks s') (embeddings s') (metadata s') \<and>
      length (chunks s') = 2)"
proof -
  have k: "map_of (demo_chunk ''b'') ''chunk_id'' \<noteq> None"
    "map_of (demo_chunk ''b'') ''source'' \<noteq> None"
    by (simp_all add: demo_chunk_def)
  have u: "uniform [[Fin 0, Fin 1]]" by (simp add: uniform_def)
  have c: "chunks (demo_store [(''a'', [Fin 1, Fin 0])]) = [demo_chunk ''a'']"
    and e: "embeddings (demo_store [(''a'', [Fin 1, Fin 0])]) = [[Fin 1, Fin 0]]"
    by (simp_all add: demo_eval)
  note t = insert_appends_and_persists [of "[demo_chunk ''b'']" "[[Fin 0, Fin 1]]" Written
      "demo_store [(''a'', [Fin 1, Fin 0])]"]
  from t k u obtain s' where
    r: "insert_documents [demo_chunk ''b''] [[Fin 0, Fin 1]] Written
          (demo_store [(''a'', [Fin 1, Fin 0])]) = (Returned PNone, s')"
    by auto
  with t have "chunks s' = chunks (demo_store [(''a'', [Fin 1, Fin 0])]) @ [demo_chunk ''b'']"
    and "embeddings s' = embeddings (demo_store [(''a'', [Fin 1, Fin 0])]) @ [[Fin 0, Fin 1]]"
    and d: "disk s' = Snapshot (chunks s') (embeddings s') (metadata s')"
    by blast+
  with c e have "chunks s' = [demo_chunk ''a'', demo_chunk ''b'']"
    and "embeddings s' = [[Fin 1, Fin 0], [Fin 0, Fin 1]]"
    by simp_all
  with r d k u show ?thesis by simp
qed

section \<open>Claims about searching\<close>

text \<open>
  C2. \<open>top_k\<close> is a number of results, a count \<open>k\<close>. For every store, query, threshold
  and count \<open>k\<close>: the list that \<open>search_similar\<close> gives back has at most \<open>k\<close> results
  and none with a score below the threshold; and the threshold is applied after the cut.
  Whenever the search returns normally on a store that holds vectors, the scores returned
  are, in order, those of the first \<open>k\<close> entries of the ranking that reach the threshold,
  so an entry ranked after the cut is never admitted, however many reach the threshold,
  and fewer than \<open>k\<close> results remain when one of the first \<open>k\<close> does not reach it. On a
  searchable store the search does return normally.
\<close>

theorem search_top_k_then_threshold:
  "(\<forall>rs. value_of (fst (search_similar q (int k) thr s)) = Some rs \<longrightarrow>
      length rs \<le> k \<and> (\<forall>r \<in> set rs. fge (res_score r) thr)) \<and>
   (\<forall>rs. fst (search_similar q (int k) thr s) = Returned rs \<and> embeddings s \<noteq> [] \<longrightarrow>
      (\<exists>sims. similarities s q = Inr sims \<and>
         map res_score rs =
           filter (\<lambda>x. fge x thr) (map ((!) sims) (take k (rev (argsort sims)))))) \<and>
   (searchable s q \<longrightarrow> (\<exists>rs. fst (search_similar q (int k) thr s) = Returned rs))"
proof (intro conjI allI impI)
  fix rs
  assume v: "value_of (fst (search_similar q (int k) thr s)) = Some rs"
  show "length rs \<le> k"
  proof (cases "rs = []")
    case True
    then show ?thesis by simp
  next
    case False
    from search_similar_scores [OF v False] obtain sims where
      sc: "map res_score rs =
             filter (\<lambda>x. fge x thr) (map ((!) sims) (top_indices sims (int k)))"
      by blast
    have "length rs = length (map res_score rs)" by simp
    also have "\<dots> \<le> length (top_indices sims (int k))"
      unfolding sc using length_filter_le [of _ "map ((!) sims) (top_indices sims (int k))"]
      by simp
    finally show ?thesis
      using length_top_indices [of "int k" sims] by simp
  qed
  show "\<forall>r \<in> set rs. fge (res_score r) thr"
  proof
    fix r assume r: "r \<in> set rs"
    then have "rs \<noteq> []" by auto
    from search_similar_scores [OF v this] obtain sims where
      sc: "map res_score rs =
             filter (\<lambda>x. fge x thr) (map ((!) sims) (top_indices sims (int k)))"
      by blast
    from r have "res_score r \<in> set (map res_score rs)" by simp
    then show "fge (res_score r) thr" unfolding sc by simp
  qed
next
  fix rs
  assume "fst (search_similar q (int k) thr s) = Returned rs \<and> embeddings s \<noteq> []"
  then obtain sims where "similarities s q = Inr sims"
    and "build_results s sims thr (top_indices sims (int k)) = Inr rs"
    by (auto simp: search_similar_def split: sum.splits if_splits)
  then show "\<exists>sims. similarities s q = Inr sims \<and>
         map res_score rs =
           filter (\<lambda>x. fge x thr) (map ((!) sims) (take k (rev (argsort sims))))"
    using build_results_scores [of s sims thr "top_indices sims (int k)" rs]
    by (simp add: top_indices_count)
next
  assume "searchable s q"
  then show "\<exists>rs. fst (search_similar q (int k) thr s) = Returned rs"
    by (rule searchable_returns)
qed

text \<open>
  The theorem of C2 on three entries of scores 0, 1 and -1 that all reach the threshold
  -1, with \<open>k = 2\<close>: the two best are returned and the third is not. With the threshold
  1/2 only one of the first two remains.
\<close>

theorem search_top_k_then_threshold_witness:
  "searchable (demo_store ranked_vectors) [Fin 1, Fin 0] \<and>
   embeddings (demo_store ranked_vectors) \<noteq> [] \<and>
   similarities (demo_store ranked_vectors) [Fin 1, Fin 0] = Inr [Fin 0, Fin 1, Fin (- 1)] \<and>
   (\<exists>rs. fst (search_similar [Fin 1, Fin 0] (int 2) (Fin (- 1)) (demo_store ranked_vectors))
            = Returned rs \<and>
      map res_score rs = [Fin 1, Fin 0] \<and> length rs \<le> 2) \<and>
   (\<exists>rs. fst (search_similar [Fin 1, Fin 0] (int 2) (Fin 0.5) (demo_store ranked_vectors))
            = Returned rs \<and>
      map res_score rs = [Fin 1] \<and> fge (res_score (hd rs)) (Fin 0.5))"
proof -
  let ?s = "demo_store ranked_vectors"
  let ?q = "[Fin 1, Fin 0]"
  have w: "searchable ?s ?q"
    by (simp add: searchable_def demo_eval ranked_vectors_def)
  have ne: "embeddings ?s \<noteq> []"
    by (simp add: demo_eval ranked_vectors_def)
  have sm: "similarities ?s ?q = Inr [Fin 0, Fin 1, Fin (- 1)]"
    by (simp add: demo_eval ranked_vectors_def)
  have rk: "rev (argsort [Fin 0, Fin 1, Fin (- 1)]) = [1, 0, 2]"
    by (simp add: argsort_def np_lt_def upt_rec)
  note a = search_top_k_then_threshold [of ?q 2 "Fin (- 1)" ?s]
  note b = search_top_k_then_threshold [of ?q 2 "Fin 0.5" ?s]
  from a w obtain rs where rs: "fst (search_similar ?q (int 2) (Fin (- 1)) ?s) = Returned rs"
    by blast
  with a ne sm have sa: "map res_score rs = [Fin 1, Fin 0]"
    by (fastforce simp: rk)
  from a rs have la: "length rs \<le> 2" by simp
  from b w obtain rt where rt: "fst (search_similar ?q (int 2) (Fin 0.5) ?s) = Returned rt"
    by blast
  with b ne sm have sb: "map res_score rt = [Fin 1]"
    by (fastforce simp: rk)
  then have "hd rt \<in> set rt" by (cases rt) auto
  with b rt have gb: "fge (res_score (hd rt)) (Fin 0.5)" by simp
  show ?thesis
    by (intro conjI w ne sm exI [of _ rs] exI [of _ rt] rs sa la rt sb gb)
qed

text \<open>
  C5 as stated fails on ties. Three entries with the same vector have the same score;
  \<open>np.argsort\<close> lists them in insertion order and \<open>[::-1]\<close> reverses the whole
  ranking, so the results come out last inserted first.
\<close>

theorem search_ties_counterexample:
  "map_option (map (\<lambda>r. (res_text r, res_score r)))
     (value_of (fst (search_similar [Fin 1, Fin 0] 3 (Fin 0.5) (demo_store same_vectors))))
   = Some [(PStr ''third'', Fin 1), (PStr ''second'', Fin 1), (PStr ''first'', Fin 1)]"
  by (simp add: demo_eval same_vectors_def)

text \<open>
  C5, amended. For every store, query, \<open>top_k\<close> and threshold, the results of
  \<open>search_similar\<close> are in descending order of score: each result's score is at least the
  score of every later result. Results with equal scores are not in insertion order.
\<close>

theorem search_sorted_descending:
  "value_of (fst (search_similar q top_k thr s)) = Some rs \<Longrightarrow>
   sorted_wrt (\<lambda>a b. fge (res_score a) (res_score b)) rs"
proof (cases "rs = []")
  case True
  then show ?thesis by simp
next
  case False
  assume "value_of (fst (search_similar q top_k thr s)) = Some rs"
  from search_similar_scores [OF this False] obtain sims where
    "map res_score rs = filter (\<lambda>x. fge x thr) (map ((!) sims) (top_indices sims top_k))"
    by blast
  with fge_sorted_filter [OF sorted_top_indices, of thr sims top_k]
  have "sorted_wrt fge (map res_score rs)" by simp
  then show ?thesis by (simp add: sorted_wrt_map)
qed

text \<open>The amended C5 on three entries of scores 0, 1 and -1 against the query.\<close>

theorem search_sorted_descending_witness:
  "\<exists>rs. value_of (fst (search_similar [Fin 1, Fin 0] 3 (Fin (- 1)) (demo_store ranked_vectors)))
          = Some rs \<and>
     map (\<lambda>r. (res_text r, res_score r)) rs
       = [(PStr ''along'', Fin 1), (PStr ''across'', Fin 0), (PStr ''against'', Fin (- 1))] \<and>
     sorted_wrt (\<lambda>a b. fge (res_score a) (res_score b)) rs"
proof -
  obtain rs where
    rs: "value_of (fst (search_similar [Fin 1, Fin 0] 3 (Fin (- 1)) (demo_store ranked_vectors)))
           = Some rs"
    and t: "map (\<lambda>r. (res_text r, res_score r)) rs
       = [(PStr ''along'', Fin 1), (PStr ''across'', Fin 0), (PStr ''against'', Fin (- 1))]"
    by (simp add: demo_eval ranked_vectors_def)
  show ?thesis
    by (intro exI [of _ rs] conjI rs t search_sorted_descending [OF rs])
qed

text \<open>
  C6 as stated fails: nothing guards a zero norm. The similarity of the stored zero
  vector is \<open>NaN\<close>, not 0; \<open>NaN\<close> ranks first in the reversed \<open>argsort\<close> and takes the
  only slot of \<open>top_k = 1\<close>, so the search returns nothing although the other entry has
  similarity 1. With the similarity taken as 0, the same ranking and filter return that
  entry.
\<close>

theorem zero_norm_counterexample:
  "similarities (demo_store zero_first) [Fin 1, Fin 0] = Inr [NaN, Fin 1] \<and>
   fst (search_similar [Fin 1, Fin 0] 1 (Fin 0.5) (demo_store zero_first)) = Returned [] \<and>
   map_sum id (map res_text)
     (build_results (demo_store zero_first) [Fin 0, Fin 1] (Fin 0.5) (top_indices [Fin 0, Fin 1] 1))
     = Inr [PStr ''match'']"
  by (simp add: demo_eval zero_first_def)

text \<open>
  C6, amended. No zero norm is guarded. A stored vector or a query whose components are
  all 0 has norm 0, and each of its components becomes \<open>0/0\<close>: for a query of at least
  one component, the similarity of the entry is \<open>NaN\<close>, and it takes part in the ranking.
  No \<open>NaN\<close> reaches a result, since \<open>NaN >= threshold\<close> is false: every returned score
  is a number or an infinity that reaches the threshold. And \<open>search_similar\<close> never
  raises.
\<close>

theorem search_no_nan_no_raise:
  "(\<forall>e. fst (search_similar q top_k thr s) \<noteq> Raised e) \<and>
   (\<forall>rs. value_of (fst (search_similar q top_k thr s)) = Some rs \<longrightarrow>
      (\<forall>r \<in> set rs. res_score r \<noteq> NaN \<and> fge (res_score r) thr)) \<and>
   (\<forall>sims i. similarities s q = Inr sims \<and> i < length sims \<and> q \<noteq> [] \<and>
      ((\<forall>x \<in> set q. x = Fin 0) \<or> (\<forall>x \<in> set (embeddings s ! i). x = Fin 0))
      \<longrightarrow> sims ! i = NaN)"
proof (intro conjI allI impI ballI)
  fix e show "fst (search_similar q top_k thr s) \<noteq> Raised e"
    by (rule search_similar_not_raised)
next
  fix rs r
  assume v: "value_of (fst (search_similar q top_k thr s)) = Some rs" and r: "r \<in> set rs"
  then have "rs \<noteq> []" by auto
  from search_similar_scores [OF v this] obtain sims where
    sc: "map res_score rs = filter (\<lambda>x. fge x thr) (map ((!) sims) (top_indices sims top_k))"
    by blast
  from r have "res_score r \<in> set (map res_score rs)" by simp
  then show g: "fge (res_score r) thr" unfolding sc by simp
  then show "res_score r \<noteq> NaN" by (cases "res_score r") auto
next
  fix sims i
  assume "similarities s q = Inr sims \<and> i < length sims \<and> q \<noteq> [] \<and>
      ((\<forall>x \<in> set q. x = Fin 0) \<or> (\<forall>x \<in> set (embeddings s ! i). x = Fin 0))"
  then show "sims ! i = NaN" using zero_vector_similarity by blast
qed

text \<open>
  The amended C6 on a store whose first vector is zero, with room for both entries: the
  zero vector has similarity \<open>NaN\<close> and only the other entry is returned.
\<close>

theorem search_no_nan_no_raise_witness:
  "embeddings (demo_store zero_first) ! 0 = [Fin 0, Fin 0] \<and>
   similarities (demo_store zero_first) [Fin 1, Fin 0] = Inr [NaN, Fin 1] \<and>
   (\<exists>rs. value_of (fst (search_similar [Fin 1, Fin 0] 2 (Fin 0.5) (demo_store zero_first)))
            = Some rs \<and>
      map res_text rs = [PStr ''match''] \<and> res_score (hd rs) \<noteq> NaN)"
proof -
  let ?s = "demo_store zero_first"
  have z: "embeddings ?s ! 0 = [Fin 0, Fin 0]"
    by (simp add: demo_eval zero_first_def)
  obtain sims where sm: "similarities ?s [Fin 1, Fin 0] = Inr sims" and l: "length sims = 2"
    by (simp add: demo_eval zero_first_def)
  obtain rs where
    rs: "value_of (fst (search_similar [Fin 1, Fin 0] 2 (Fin 0.5) ?s)) = Some rs"
    and t: "map res_text rs = [PStr ''match'']"
    by (simp add: demo_eval zero_first_def)
  note th = search_no_nan_no_raise [of "[Fin 1, Fin 0]" 2 "Fin 0.5" ?s]
  from th sm l z have "sims ! 0 = NaN" by auto
  moreover have "sims ! 1 = Fin 1"
    using sm by (simp add: demo_eval zero_first_def) auto
  ultimately have "sims = [NaN, Fin 1]"
    using l by (cases sims; cases "tl sims") auto
  with sm have sm': "similarities ?s [Fin 1, Fin 0] = Inr [NaN, Fin 1]" by simp
  from t have "hd rs \<in> set rs" by (cases rs) auto
  with th rs have n: "res_score (hd rs) \<noteq> NaN" by blast
  show ?thesis by (intro exI [of _ rs] conjI rs t n z sm')
qed

section \<open>The invariant of the store\<close>

text \<open>
  C10. Starting from a store whose three lists are empty, after any sequence of
  operations in which every insert and every clear is successful, the lists \<open>chunks\<close>,
  \<open>embeddings\<close> and \<open>metadata\<close> have one length; and \<open>search_similar\<close> and
  \<open>get_status\<close> leave every store as it is.
\<close>

theorem store_lists_parallel:
  "(chunks s0 = [] \<and> embeddings s0 = [] \<and> metadata s0 = [] \<and> run ops s0 = Some s \<longrightarrow>
      length (chunks s) = length (embeddings s) \<and> length (embeddings s) = length (metadata s)) \<and>
   snd (search_similar q top_k thr s1) = s1 \<and>
   snd (get_status s1) = s1"
proof (intro conjI impI)
  assume a: "chunks s0 = [] \<and> embeddings s0 = [] \<and> metadata s0 = [] \<and> run ops s0 = Some s"
  then have "parallel s0" by (simp add: parallel_def)
  with a have "parallel s" using run_parallel by blast
  then show "length (chunks s) = length (embeddings s)"
    and "length (embeddings s) = length (metadata s)"
    by (simp_all add: parallel_def)
qed (rule search_similar_state get_status_state)+

text \<open>
  The theorem of C10 on a fresh database without a file, after an insert of two entries,
  a search, a status, a clear and an insert of one entry.
\<close>

theorem store_lists_parallel_witness:
  "chunks (init Absent) = [] \<and> embeddings (init Absent) = [] \<and> metadata (init Absent) = [] \<and>
   (\<exists>s. run demo_ops (init Absent) = Some s \<and>
      embeddings s = [[Fin 1]] \<and>
      length (chunks s) = length (embeddings s) \<and> length (embeddings s) = length (metadata s))"
proof -
  have e: "chunks (init Absent) = [] \<and> embeddings (init Absent) = [] \<and> metadata (init Absent) = []"
    by (simp add: init_def load_from_disk_def)
  obtain s where r: "run demo_ops (init Absent) = Some s" and v: "embeddings s = [[Fin 1]]"
    by (simp add: demo_ops_def demo_eval search_similar_state get_status_state clear_database_def
        del: search_similar_def)
  from store_lists_parallel [of "init Absent" demo_ops s] e r
  have p: "length (chunks s) = length (embeddings s) \<and> length (embeddings s) = length (metadata s)"
    by blast
  show ?thesis
    by (intro conjI exI [of _ s] r v e [THEN conjunct1] e [THEN conjunct2, THEN conjunct1]
        e [THEN conjunct2, THEN conjunct2] p [THEN conjunct1] p [THEN conjunct2])
qed

end
